theory Spec2Isabelle
  imports Main "HOL-Library.Word"
begin

section \<open>Data model of the merge-compaction task\<close>

text \<open>
  The task of package \<open>jobs\<close> talks to three collaborators whose code lives in other
  packages: the catalog (transaction, database, relation and object handles), the block
  reader behind an object handle, and the sort-merge-write engine. Their calls are modelled
  as events appended to a history; an environment decides, from the history so far, whether
  a call fails and what a block read returns. Every function of the task takes the history
  and returns it extended, so the order and number of external calls can be read off.
\<close>

text \<open>
  Identifiers (database, table and object ids, timestamps) are opaque to the task and are
  natural numbers here. Block counts and block offsets are counts; Go's \<open>int\<close> does not
  overflow on them, so they are natural numbers too. The one conversion that truncates,
  \<open>uint16(j)\<close> in \<open>PrepareData\<close>, is kept as a 16-bit word.
\<close>

type_synonym objid = nat

datatype error = ErrMsg string

text \<open>A Go call either returns a value, returns a non-nil error, or panics.\<close>

datatype 'a outcome = Ok 'a | Err error | Panic string

record col_def =
  Name :: string
  Idx :: int
  SeqNum :: "16 word"
  IsPhyAddr :: bool

text \<open>
  Modelled from the spec: the declaration of \<open>catalog.Schema\<close> and its accessors
  \<open>HasPK\<close>, \<open>HasSortKey\<close> and \<open>GetSingleSortKeyIdx\<close> are in another package. The spec
  gives a table a sort-key position "or none", and the sort key may or may not be the
  primary key: the schema holds an optional sort key with its column position and a
  primary flag.
\<close>

record sort_key =
  sk_idx :: int
  sk_primary :: bool

record schema =
  SchemaName :: string
  Version :: nat
  ColDefs :: "col_def list"
  BlockMaxRows :: nat
  SortKey :: "sort_key option"

definition HasSortKey :: "schema \<Rightarrow> bool" where
  "HasSortKey s = (case SortKey s of None \<Rightarrow> False | Some k \<Rightarrow> True)"

definition HasPK :: "schema \<Rightarrow> bool" where
  "HasPK s = (case SortKey s of None \<Rightarrow> False | Some k \<Rightarrow> sk_primary k)"

definition GetSingleSortKeyIdx :: "schema \<Rightarrow> int outcome" where
  "GetSingleSortKeyIdx s =
     (case SortKey s of
        None \<Rightarrow> Panic ''nil pointer dereference''
      | Some k \<Rightarrow> Ok (sk_idx k))"

record db_entry =
  db_ID :: nat

record table_entry =
  tbl_ID :: nat
  tbl_DB :: db_entry

record object_stats =
  stats_ObjectId :: objid
  stats_Rows :: nat

text \<open>
  A source object as \<open>NewMergeObjectsTask\<close> receives it (\<open>*catalog.ObjectEntry\<close>):
  \<open>GetTable\<close>, \<open>BlockCnt\<close> and \<open>GetObjectStats\<close> are its accessors. A block count is a
  natural number.
\<close>

record object_entry =
  ID :: objid
  GetTable :: table_entry
  BlockCnt :: nat
  GetObjectStats :: object_stats

text \<open>
  The handles the catalog returns. A relation handle knows its database, its table and
  its schema; an object handle knows its relation and its object.
\<close>

record relation =
  rel_did :: nat
  rel_tid :: nat
  rel_schema :: schema

record object_handle =
  oh_did :: nat
  oh_tid :: nat
  oh_id :: objid

type_synonym booking = "(nat \<times> nat) list"

record merge_commit_entry =
  DbID :: nat
  TableID :: nat
  Tablename :: string
  StartTs :: nat
  MergedObjs :: "object_stats list"
  CreatedObjectStats :: "object_stats list"
  Booking :: booking

text \<open>
  The log entry built by \<open>txnentries.NewMergeObjectsEntry\<close>: the relation, the entries of
  the dropped and of the created objects (pointers, named here by object id) and the
  booking.
\<close>

record merge_objects_entry =
  moe_did :: nat
  moe_tid :: nat
  moe_dropped :: "objid list"
  moe_created :: "objid list"
  moe_booking :: booking

type_synonym vector = "int list"

text \<open>
  A block view (\<open>containers.BlockView\<close>, declared in another package). Its \<open>Columns\<close> are
  a Go map from column index to column view. The map is given by an association list and
  read with \<open>map_of\<close>; its \<open>len\<close> is the number of distinct keys. A column view is
  given by its data vector.
\<close>

record block_view =
  Columns :: "(int \<times> vector) list"
  DeleteMask :: "nat list option"

definition view_len :: "block_view \<Rightarrow> nat" where
  "view_len view = length (remdups (map fst (Columns view)))"

text \<open>
  A batch. \<open>batch.New\<close> makes one vector slot per attribute, each nil until it is
  assigned.
\<close>

record batch =
  Attrs :: "string list"
  Vecs :: "vector option list"
  RowCount :: nat

record merge_objects_task =
  mergedObjs :: "object_entry list"
  mergedObjsHandle :: "object_handle list"
  mergedBlkCnt :: "nat list"
  totalMergedBlkCnt :: nat
  createdBObjs :: "objid list"
  commitEntry :: "merge_commit_entry option"
  rel :: relation
  did :: nat
  tid :: nat

subsection \<open>External calls, events and the environment\<close>

text \<open>
  The catalog calls of the task, with their arguments: the relation of a call on a relation
  handle is given by its database id and table id, and the object entry behind a handle by
  its object id. \<open>CreateNonAppendableObject\<close> carries the flag and the id of its
  options.
\<close>

datatype call =
    GetDatabaseByID nat
  | GetRelationByID nat nat
  | GetObject nat nat objid
  | SoftDeleteObject nat nat objid
  | CreateNonAppendableObject nat nat bool objid
  | UpdateStats objid object_stats
  | SetSorted objid
  | NewMergeObjectsEntry merge_objects_entry
  | LogTxnEntry nat nat merge_objects_entry "objid list"

text \<open>
  What the outside sees of a run, in order: a catalog call with the error it returned, a
  block read of an object handle with the error or view it returned, the close of a view,
  the call of the engine with sort-key position, row cap and result, the error log of
  \<open>Execute\<close> with its phase, and the update of the performance counter.
\<close>

datatype event =
    Cat call "error option"
  | GetColumnDataByIds objid "16 word" "int list" "error + block_view"
  | ViewClose block_view
  | DoMergeAndWrite int nat "error option"
  | LogError error string
  | PerfCounterUpdate

text \<open>
  The environment: whether a catalog call fails after a given history, the schema of a
  relation, what a block read returns after a given history, the start timestamp of the
  transaction, and the engine.
\<close>

record env =
  catFails :: "event list \<Rightarrow> call \<Rightarrow> error option"
  relSchema :: "nat \<Rightarrow> nat \<Rightarrow> schema"
  readBlock :: "event list \<Rightarrow> objid \<Rightarrow> 16 word \<Rightarrow> int list \<Rightarrow> error + block_view"
  txnStartTS :: nat
  engine :: "event list \<Rightarrow> int \<Rightarrow> nat \<Rightarrow> merge_objects_task \<Rightarrow> error option \<times> merge_objects_task"

text \<open>One fallible catalog call: the environment is asked, the call is recorded.\<close>

definition cat_call :: "env \<Rightarrow> call \<Rightarrow> event list \<Rightarrow> error option \<times> event list" where
  "cat_call E c h = (catFails E h c, h @ [Cat c (catFails E h c)])"

section \<open>NewMergeObjectsTask\<close>

text \<open>
  The first loop of the constructor: \<open>mergedBlkCnt[i] = totalMergedBlkCnt\<close>, then the
  total grows by the object's block count.
\<close>

fun fill_blkcnt :: "nat \<Rightarrow> object_entry list \<Rightarrow> nat list \<times> nat \<Rightarrow> nat list \<times> nat" where
  "fill_blkcnt i [] (cnts, tot) = (cnts, tot)"
| "fill_blkcnt i (obj # objs) (cnts, tot) =
     fill_blkcnt (Suc i) objs (cnts[i := tot], tot + BlockCnt obj)"

text \<open>The second loop: one \<open>rel.GetObject\<close> per source object, stopping at the first error.\<close>

fun get_handles ::
  "env \<Rightarrow> relation \<Rightarrow> object_entry list \<Rightarrow> object_handle list \<Rightarrow> event list
    \<Rightarrow> object_handle list outcome \<times> event list" where
  "get_handles E r [] acc h = (Ok acc, h)"
| "get_handles E r (meta # metas) acc h =
     (case cat_call E (GetObject (rel_did r) (rel_tid r) (ID meta)) h of
        (Some e, h') \<Rightarrow> (Err e, h')
      | (None, h') \<Rightarrow>
          get_handles E r metas
            (acc @ [\<lparr>oh_did = rel_did r, oh_tid = rel_tid r, oh_id = ID meta\<rparr>]) h')"

text \<open>
  The constructor. When a lookup fails it returns the error; the partly filled task that
  Go returns beside the error of the first two lookups is not kept.
\<close>

definition NewMergeObjectsTask ::
  "env \<Rightarrow> object_entry list \<Rightarrow> event list \<Rightarrow> merge_objects_task outcome \<times> event list" where
  "NewMergeObjectsTask E objs h =
     (if length objs = 0 then (Panic ''empty mergedObjs'', h)
      else
        let (cnts, tot) = fill_blkcnt 0 objs (replicate (length objs) 0, 0);
            d = db_ID (tbl_DB (GetTable (objs ! 0)))
        in (case cat_call E (GetDatabaseByID d) h of
             (Some e, h1) \<Rightarrow> (Err e, h1)
           | (None, h1) \<Rightarrow>
               (let t = tbl_ID (GetTable (objs ! 0))
                in (case cat_call E (GetRelationByID d t) h1 of
                     (Some e, h2) \<Rightarrow> (Err e, h2)
                   | (None, h2) \<Rightarrow>
                       (let r = \<lparr>rel_did = d, rel_tid = t, rel_schema = relSchema E d t\<rparr>
                        in (case get_handles E r objs [] h2 of
                             (Err e, h3) \<Rightarrow> (Err e, h3)
                           | (Panic m, h3) \<Rightarrow> (Panic m, h3)
                           | (Ok hs, h3) \<Rightarrow>
                               (Ok \<lparr>mergedObjs = objs, mergedObjsHandle = hs,
                                    mergedBlkCnt = cnts, totalMergedBlkCnt = tot,
                                    createdBObjs = [], commitEntry = None,
                                    rel = r, did = d, tid = t\<rparr>, h3)))))))"

text \<open>\<open>PrepareCommitEntry\<close> builds the entry and stores it in the task.\<close>

fun merged_stats :: "object_entry list \<Rightarrow> object_stats list \<Rightarrow> object_stats list" where
  "merged_stats [] acc = acc"
| "merged_stats (obj # objs) acc = merged_stats objs (acc @ [GetObjectStats obj])"

definition PrepareCommitEntry ::
  "env \<Rightarrow> merge_objects_task \<Rightarrow> merge_commit_entry \<times> merge_objects_task" where
  "PrepareCommitEntry E task =
     (let commit =
            \<lparr>DbID = did task, TableID = tid task,
             Tablename = SchemaName (rel_schema (rel task)),
             StartTs = txnStartTS E,
             MergedObjs = merged_stats (mergedObjs task) [],
             CreatedObjectStats = [], Booking = []\<rparr>
      in (commit, task\<lparr>commitEntry := Some commit\<rparr>))"

section \<open>PrepareData\<close>

text \<open>
  \<open>releaseF\<close> closes every view of the array that is not nil. The closure captures the
  array; it is modelled as a function of the array and the history.
\<close>

fun releaseF :: "block_view option list \<Rightarrow> event list \<Rightarrow> event list" where
  "releaseF [] h = h"
| "releaseF (None # views) h = releaseF views h"
| "releaseF (Some view # views) h = releaseF views (h @ [ViewClose view])"

text \<open>The column loop: physical-address columns are skipped, the others give \<open>idxs\<close> and \<open>attrs\<close>.\<close>

fun collect_cols :: "col_def list \<Rightarrow> int list \<times> string list \<Rightarrow> int list \<times> string list" where
  "collect_cols [] (idxs, attrs) = (idxs, attrs)"
| "collect_cols (def # defs) (idxs, attrs) =
     (if IsPhyAddr def then collect_cols defs (idxs, attrs)
      else collect_cols defs (idxs @ [Idx def], attrs @ [Name def]))"

text \<open>
  The inner loop over \<open>j = 0 ..< maxBlockOffset - minBlockOffset\<close>. The block offset handed
  to the reader is \<open>uint16(j)\<close>. The call is made before the slot is assigned, so an index
  out of range panics after the read. On a read error the slot receives nil and the loop
  returns the error; the array is returned with it for the deferred release.
\<close>

fun read_blocks ::
  "env \<Rightarrow> object_handle \<Rightarrow> int list \<Rightarrow> nat \<Rightarrow> nat list \<Rightarrow> block_view option list \<Rightarrow> event list
    \<Rightarrow> unit outcome \<times> block_view option list \<times> event list" where
  "read_blocks E obj idxs minBlockOffset [] views h = (Ok (), views, h)"
| "read_blocks E obj idxs minBlockOffset (j # js) views h =
     (let blk = (of_nat j :: 16 word);
          r = readBlock E h (oh_id obj) blk idxs;
          h' = h @ [GetColumnDataByIds (oh_id obj) blk idxs r]
      in if length views \<le> minBlockOffset + j then (Panic ''index out of range'', views, h')
         else (case r of
                 Inl e \<Rightarrow> (Err e, views[minBlockOffset + j := None], h')
               | Inr view \<Rightarrow>
                   read_blocks E obj idxs minBlockOffset js
                     (views[minBlockOffset + j := Some view]) h'))"

text \<open>
  The outer loop over the object handles with their index \<open>i\<close>. \<open>len(task.mergedObjs)-1\<close>
  is computed on Go's signed integers.
\<close>

fun read_objects ::
  "env \<Rightarrow> merge_objects_task \<Rightarrow> int list \<Rightarrow> nat \<Rightarrow> object_handle list
    \<Rightarrow> block_view option list \<Rightarrow> event list
    \<Rightarrow> unit outcome \<times> block_view option list \<times> event list" where
  "read_objects E task idxs i [] views h = (Ok (), views, h)"
| "read_objects E task idxs i (obj # objs) views h =
     (if int i \<noteq> int (length (mergedObjs task)) - 1 \<and> length (mergedBlkCnt task) \<le> i + 1
      then (Panic ''index out of range'', views, h)
      else if length (mergedBlkCnt task) \<le> i
      then (Panic ''index out of range'', views, h)
      else
        let maxBlockOffset =
              (if int i \<noteq> int (length (mergedObjs task)) - 1
               then mergedBlkCnt task ! (i + 1) else totalMergedBlkCnt task);
            minBlockOffset = mergedBlkCnt task ! i
        in (case read_blocks E obj idxs minBlockOffset
                   [0 ..< maxBlockOffset - minBlockOffset] views h of
              (Ok u, views', h') \<Rightarrow> read_objects E task idxs (Suc i) objs views' h'
            | (Err e, views', h') \<Rightarrow> (Err e, views', h')
            | (Panic m, views', h') \<Rightarrow> (Panic m, views', h')))"

text \<open>
  The batch loop, for one view after the other:
  \<^item> a nil view panics when its columns are read;
  \<^item> a number of columns other than \<open>len(attrs)\<close> panics with the mismatch message (the
    message of the source also prints the attributes and both lengths);
  \<^item> \<open>for i, col := range view.Columns\<close> stores the data of column \<open>i\<close> in
    \<open>batch.Vecs[i]\<close>: a key below zero or not below \<open>len(attrs)\<close> panics, in whatever
    order Go visits the keys;
  \<^item> \<open>view.Columns[0]\<close> is a lookup of key 0: without that key it yields nil, and
    \<open>Length\<close> on it panics.
\<close>

fun build_batches ::
  "string list \<Rightarrow> block_view option list \<Rightarrow> batch list \<Rightarrow> nat list option list
    \<Rightarrow> (batch list \<times> nat list option list) outcome" where
  "build_batches attrs [] batches dels = Ok (batches, dels)"
| "build_batches attrs (None # views) batches dels = Panic ''nil pointer dereference''"
| "build_batches attrs (Some view # views) batches dels =
     (if length attrs \<noteq> view_len view then Panic ''mismatch''
      else if (\<exists>i \<in> set (map fst (Columns view)). i < 0 \<or> int (length attrs) \<le> i)
      then Panic ''index out of range''
      else (case map_of (Columns view) 0 of
              None \<Rightarrow> Panic ''nil pointer dereference''
            | Some col \<Rightarrow>
                build_batches attrs views
                  (batches @ [\<lparr>Attrs = attrs,
                               Vecs = map (\<lambda>i. map_of (Columns view) (int i))
                                        [0 ..< length attrs],
                               RowCount = length col\<rparr>])
                  (dels @ [DeleteMask view])))"

text \<open>
  \<open>PrepareData\<close>. \<open>make([]int, 0, len(schema.ColDefs)-1)\<close> panics on a schema without
  column definitions. The deferred function releases the views when \<open>err\<close> is set, that is
  on a read error only; a panic leaves them open. The third component of the result is the
  array captured by the returned \<open>releaseF\<close>.
\<close>

definition PrepareData ::
  "env \<Rightarrow> merge_objects_task \<Rightarrow> event list
    \<Rightarrow> (batch list \<times> nat list option list \<times> block_view option list) outcome \<times> event list" where
  "PrepareData E task h =
     (let views = replicate (totalMergedBlkCnt task) None;
          schema = rel_schema (rel task)
      in if ColDefs schema = [] then (Panic ''makeslice: cap out of range'', h)
         else
           let (idxs, attrs) = collect_cols (ColDefs schema) ([], [])
           in (case read_objects E task idxs 0 (mergedObjsHandle task) views h of
                 (Err e, views', h') \<Rightarrow> (Err e, releaseF views' h')
               | (Panic m, views', h') \<Rightarrow> (Panic m, h')
               | (Ok u, views', h') \<Rightarrow>
                   (case build_batches attrs views' [] [] of
                      Panic m \<Rightarrow> (Panic m, h')
                    | Err e \<Rightarrow> (Err e, h')
                    | Ok (batches, dels) \<Rightarrow> (Ok (batches, dels, views'), h'))))"

section \<open>PrepareNewWriterFunc\<close>

record writer_params =
  w_version :: nat
  w_seqnums :: "16 word list"
  w_sortkeyPos :: int
  w_sortkeyIsPK :: bool

fun collect_seqnums :: "col_def list \<Rightarrow> 16 word list \<Rightarrow> 16 word list" where
  "collect_seqnums [] seqnums = seqnums"
| "collect_seqnums (def # defs) seqnums =
     (if IsPhyAddr def then collect_seqnums defs seqnums
      else collect_seqnums defs (seqnums @ [SeqNum def]))"

text \<open>
  The result stands for the closure \<open>GetMustNewWriter\<close> returns: the parameters every
  writer it creates is built with.
\<close>

definition PrepareNewWriterFunc :: "merge_objects_task \<Rightarrow> writer_params outcome" where
  "PrepareNewWriterFunc task =
     (let schema = rel_schema (rel task)
      in if ColDefs schema = [] then Panic ''makeslice: cap out of range''
         else
           let seqnums = collect_seqnums (ColDefs schema) []
           in if HasPK schema then
                (case GetSingleSortKeyIdx schema of
                   Ok sortkeyPos \<Rightarrow>
                     Ok \<lparr>w_version = Version schema, w_seqnums = seqnums,
                         w_sortkeyPos = sortkeyPos, w_sortkeyIsPK = True\<rparr>
                 | Err e \<Rightarrow> Err e
                 | Panic m \<Rightarrow> Panic m)
              else if HasSortKey schema then
                (case GetSingleSortKeyIdx schema of
                   Ok sortkeyPos \<Rightarrow>
                     Ok \<lparr>w_version = Version schema, w_seqnums = seqnums,
                         w_sortkeyPos = sortkeyPos, w_sortkeyIsPK = False\<rparr>
                 | Err e \<Rightarrow> Err e
                 | Panic m \<Rightarrow> Panic m)
              else Ok \<lparr>w_version = Version schema, w_seqnums = seqnums,
                       w_sortkeyPos = - 1, w_sortkeyIsPK = False\<rparr>)"

section \<open>HandleMergeEntryInTxn\<close>

text \<open>The loop that drops the merged objects: lookup, then soft delete.\<close>

fun drop_merged ::
  "env \<Rightarrow> relation \<Rightarrow> object_stats list \<Rightarrow> objid list \<Rightarrow> event list
    \<Rightarrow> objid list outcome \<times> event list" where
  "drop_merged E r [] merged h = (Ok merged, h)"
| "drop_merged E r (dropped # drops) merged h =
     (let objID = stats_ObjectId dropped
      in (case cat_call E (GetObject (rel_did r) (rel_tid r) objID) h of
            (Some e, h1) \<Rightarrow> (Err e, h1)
          | (None, h1) \<Rightarrow>
              (case cat_call E (SoftDeleteObject (rel_did r) (rel_tid r) objID) h1 of
                 (Some e, h2) \<Rightarrow> (Err e, h2)
               | (None, h2) \<Rightarrow> drop_merged E r drops (merged @ [objID]) h2)))"

text \<open>
  The loop that constructs the new objects: create with the id of the statistics, update
  the statistics, then \<open>SetSorted\<close>, which returns nothing and cannot fail.
\<close>

fun create_objs ::
  "env \<Rightarrow> relation \<Rightarrow> object_stats list \<Rightarrow> objid list \<Rightarrow> event list
    \<Rightarrow> objid list outcome \<times> event list" where
  "create_objs E r [] createdObjs h = (Ok createdObjs, h)"
| "create_objs E r (stats # statss) createdObjs h =
     (let objID = stats_ObjectId stats
      in (case cat_call E (CreateNonAppendableObject (rel_did r) (rel_tid r) False objID) h of
            (Some e, h1) \<Rightarrow> (Err e, h1)
          | (None, h1) \<Rightarrow>
              (case cat_call E (UpdateStats objID stats) h1 of
                 (Some e, h2) \<Rightarrow> (Err e, h2)
               | (None, h2) \<Rightarrow>
                   create_objs E r statss (createdObjs @ [objID])
                     (h2 @ [Cat (SetSorted objID) None]))))"

definition HandleMergeEntryInTxn ::
  "env \<Rightarrow> merge_commit_entry \<Rightarrow> event list \<Rightarrow> objid list outcome \<times> event list" where
  "HandleMergeEntryInTxn E entry h =
     (case cat_call E (GetDatabaseByID (DbID entry)) h of
        (Some e, h1) \<Rightarrow> (Err e, h1)
      | (None, h1) \<Rightarrow>
          (case cat_call E (GetRelationByID (DbID entry) (TableID entry)) h1 of
             (Some e, h2) \<Rightarrow> (Err e, h2)
           | (None, h2) \<Rightarrow>
               (let r = \<lparr>rel_did = DbID entry, rel_tid = TableID entry,
                         rel_schema = relSchema E (DbID entry) (TableID entry)\<rparr>
                in (case drop_merged E r (MergedObjs entry) [] h2 of
                      (Err e, h3) \<Rightarrow> (Err e, h3)
                    | (Panic m, h3) \<Rightarrow> (Panic m, h3)
                    | (Ok merged, h3) \<Rightarrow>
                        (case create_objs E r (CreatedObjectStats entry) [] h3 of
                           (Err e, h4) \<Rightarrow> (Err e, h4)
                         | (Panic m, h4) \<Rightarrow> (Panic m, h4)
                         | (Ok createdObjs, h4) \<Rightarrow>
                             (let txnEntry =
                                    \<lparr>moe_did = rel_did r, moe_tid = rel_tid r,
                                     moe_dropped = merged, moe_created = createdObjs,
                                     moe_booking = Booking entry\<rparr>
                              in (case cat_call E (NewMergeObjectsEntry txnEntry) h4 of
                                    (Some e, h5) \<Rightarrow> (Err e, h5)
                                  | (None, h5) \<Rightarrow>
                                      (case cat_call E
                                              (LogTxnEntry (DbID entry) (TableID entry) txnEntry [])
                                              h5 of
                                         (Some e, h6) \<Rightarrow> (Err e, h6)
                                       | (None, h6) \<Rightarrow> (Ok createdObjs, h6)))))))))"

section \<open>Execute\<close>

text \<open>
  \<open>mergesort.DoMergeAndWrite\<close> is the external engine: the environment gives its result
  and the task as it leaves it (the engine fills the commit entry through the task). The
  deferred function logs the error with the phase reached; it logs nothing when the
  function panics, \<open>err\<close> being nil then. A nil commit entry panics when
  \<open>HandleMergeEntryInTxn\<close> reads \<open>entry.DbID\<close>.
\<close>

definition Execute ::
  "env \<Rightarrow> merge_objects_task \<Rightarrow> event list \<Rightarrow> unit outcome \<times> merge_objects_task \<times> event list" where
  "Execute E task h =
     (let schema = rel_schema (rel task)
      in (case (if HasSortKey schema then GetSingleSortKeyIdx schema else Ok (- 1)) of
            Panic m \<Rightarrow> (Panic m, task, h)
          | Err e \<Rightarrow> (Err e, task, h)
          | Ok sortkeyPos \<Rightarrow>
              (case engine E h sortkeyPos (BlockMaxRows schema) task of
                 (Some e, task1) \<Rightarrow>
                   (Err e, task1,
                    h @ [DoMergeAndWrite sortkeyPos (BlockMaxRows schema) (Some e),
                         LogError e ''1-DoMergeAndWrite''])
               | (None, task1) \<Rightarrow>
                   (let h1 = h @ [DoMergeAndWrite sortkeyPos (BlockMaxRows schema) None]
                    in (case commitEntry task1 of
                          None \<Rightarrow> (Panic ''nil pointer dereference'', task1, h1)
                        | Some entry \<Rightarrow>
                            (case HandleMergeEntryInTxn E entry h1 of
                               (Err e, h2) \<Rightarrow>
                                 (Err e, task1\<lparr>createdBObjs := []\<rparr>,
                                  h2 @ [LogError e ''2-HandleMergeEntryInTxn''])
                             | (Panic m, h2) \<Rightarrow> (Panic m, task1, h2)
                             | (Ok created, h2) \<Rightarrow>
                                 (Ok (), task1\<lparr>createdBObjs := created\<rparr>,
                                  h2 @ [PerfCounterUpdate])))))))"

section \<open>Reference functions for the proofs\<close>

text \<open>
  The functions of this section are not in the source. They say in one recursion what
  the loops of the source do, and the lemmas below show that the loops compute them.
\<close>

definition returns_error :: "'a outcome \<Rightarrow> bool" where
  "returns_error r = (case r of Err e \<Rightarrow> True | Ok x \<Rightarrow> False | Panic m \<Rightarrow> False)"

definition panics :: "'a outcome \<Rightarrow> bool" where
  "panics r = (case r of Panic m \<Rightarrow> True | Ok x \<Rightarrow> False | Err e \<Rightarrow> False)"

text \<open>The prefix sums of the block counts, starting at \<open>s\<close>.\<close>

fun offsets :: "nat \<Rightarrow> object_entry list \<Rightarrow> nat list" where
  "offsets s [] = []"
| "offsets s (obj # objs) = s # offsets (s + BlockCnt obj) objs"

text \<open>The global offset of the first block of object \<open>i\<close>.\<close>

definition prefixSum :: "object_entry list \<Rightarrow> nat \<Rightarrow> nat" where
  "prefixSum objs i = sum_list (map BlockCnt (take i objs))"

text \<open>The flattened block numbering: every block of every object, in order.\<close>

definition flat_blocks :: "object_entry list \<Rightarrow> (objid \<times> nat) list" where
  "flat_blocks objs = concat (map (\<lambda>obj. map (Pair (ID obj)) [0 ..< BlockCnt obj]) objs)"

text \<open>Reading a list of blocks one after the other, up to the first error.\<close>

fun read_seq ::
  "env \<Rightarrow> int list \<Rightarrow> (objid \<times> nat) list \<Rightarrow> block_view list \<Rightarrow> event list
    \<Rightarrow> error option \<times> block_view list \<times> event list" where
  "read_seq E idxs [] vs h = (None, vs, h)"
| "read_seq E idxs ((obj, j) # ps) vs h =
     (let r = readBlock E h obj (of_nat j) idxs;
          h' = h @ [GetColumnDataByIds obj (of_nat j) idxs r]
      in (case r of
            Inl e \<Rightarrow> (Some e, vs, h')
          | Inr view \<Rightarrow> read_seq E idxs ps (vs @ [view]) h'))"

text \<open>An array of \<open>N\<close> slots whose first slots hold the views \<open>vs\<close>, the others nil.\<close>

definition slots :: "nat \<Rightarrow> block_view list \<Rightarrow> block_view option list" where
  "slots N vs = map Some vs @ replicate (N - length vs) None"

fun to_outcome :: "error option \<Rightarrow> unit outcome" where
  "to_outcome None = Ok ()"
| "to_outcome (Some e) = Err e"

text \<open>The events of successful reads of the blocks \<open>ps\<close> that returned the views \<open>ws\<close>.\<close>

definition ok_reads :: "int list \<Rightarrow> (objid \<times> nat) list \<Rightarrow> block_view list \<Rightarrow> event list" where
  "ok_reads idxs ps ws =
     map (\<lambda>((obj, j), view). GetColumnDataByIds obj (of_nat j) idxs (Inr view)) (zip ps ws)"

text \<open>The views a history acquired, the views it closed, and whether a read failed in it.\<close>

fun acquired :: "event list \<Rightarrow> block_view list" where
  "acquired [] = []"
| "acquired (GetColumnDataByIds obj blk idxs (Inr view) # evs) = view # acquired evs"
| "acquired (ev # evs) = acquired evs"

fun closed :: "event list \<Rightarrow> block_view list" where
  "closed [] = []"
| "closed (ViewClose view # evs) = view # closed evs"
| "closed (ev # evs) = closed evs"

fun read_failed :: "event list \<Rightarrow> bool" where
  "read_failed [] = False"
| "read_failed (GetColumnDataByIds obj blk idxs (Inl e) # evs) = True"
| "read_failed (ev # evs) = read_failed evs"

text \<open>What the batch loop does with one view: the batch it appends, or its panic.\<close>

definition view_batch :: "string list \<Rightarrow> block_view \<Rightarrow> batch outcome" where
  "view_batch attrs view =
     (if length attrs \<noteq> view_len view then Panic ''mismatch''
      else if (\<exists>i \<in> set (map fst (Columns view)). i < 0 \<or> int (length attrs) \<le> i)
      then Panic ''index out of range''
      else (case map_of (Columns view) 0 of
              None \<Rightarrow> Panic ''nil pointer dereference''
            | Some col \<Rightarrow>
                Ok \<lparr>Attrs = attrs,
                    Vecs = map (\<lambda>i. map_of (Columns view) (int i)) [0 ..< length attrs],
                    RowCount = length col\<rparr>))"

text \<open>The columns a merge reads: the definitions that are not the physical address.\<close>

definition data_cols :: "schema \<Rightarrow> col_def list" where
  "data_cols s = filter (\<lambda>d. \<not> IsPhyAddr d) (ColDefs s)"

text \<open>
  Making a list of catalog calls one after the other, up to the first that fails.
  \<open>SetSorted\<close> returns nothing, so the environment is not asked about it.
\<close>

definition call_result :: "env \<Rightarrow> event list \<Rightarrow> call \<Rightarrow> error option" where
  "call_result E h c = (case c of SetSorted objID \<Rightarrow> None | _ \<Rightarrow> catFails E h c)"

fun run_calls :: "env \<Rightarrow> call list \<Rightarrow> event list \<Rightarrow> error option \<times> event list" where
  "run_calls E [] h = (None, h)"
| "run_calls E (c # cs) h =
     (case call_result E h c of
        Some e \<Rightarrow> (Some e, h @ [Cat c (Some e)])
      | None \<Rightarrow> run_calls E cs (h @ [Cat c None]))"

definition oks :: "call list \<Rightarrow> event list" where
  "oks cs = map (\<lambda>c. Cat c None) cs"

fun call_failed :: "event \<Rightarrow> bool" where
  "call_failed (Cat c (Some e)) = True"
| "call_failed ev = False"

fun is_engine_call :: "event \<Rightarrow> bool" where
  "is_engine_call (DoMergeAndWrite pos rows r) = True"
| "is_engine_call ev = False"

text \<open>The sort-key position of a schema, \<open>-1\<close> standing for none.\<close>

definition sortkey_pos :: "schema \<Rightarrow> int" where
  "sortkey_pos s = (case SortKey s of None \<Rightarrow> - 1 | Some k \<Rightarrow> sk_idx k)"

text \<open>Every \<open>UpdateStats\<close> of a list of calls is directly followed by \<open>SetSorted\<close> of its object.\<close>

definition stats_then_sorted :: "call list \<Rightarrow> bool" where
  "stats_then_sorted cs =
     (\<forall>k i st. k < length cs \<and> cs ! k = UpdateStats i st
        \<longrightarrow> Suc k < length cs \<and> cs ! Suc k = SetSorted i)"

text \<open>The calls of a catalog apply that succeeds, in order.\<close>

definition drop_calls :: "nat \<Rightarrow> nat \<Rightarrow> object_stats list \<Rightarrow> call list" where
  "drop_calls d t sts =
     concat (map (\<lambda>s. [GetObject d t (stats_ObjectId s),
                        SoftDeleteObject d t (stats_ObjectId s)]) sts)"

definition create_calls :: "nat \<Rightarrow> nat \<Rightarrow> object_stats list \<Rightarrow> call list" where
  "create_calls d t sts =
     concat (map (\<lambda>s. [CreateNonAppendableObject d t False (stats_ObjectId s),
                        UpdateStats (stats_ObjectId s) s,
                        SetSorted (stats_ObjectId s)]) sts)"

definition txn_entry :: "merge_commit_entry \<Rightarrow> merge_objects_entry" where
  "txn_entry entry =
     \<lparr>moe_did = DbID entry, moe_tid = TableID entry,
      moe_dropped = map stats_ObjectId (MergedObjs entry),
      moe_created = map stats_ObjectId (CreatedObjectStats entry),
      moe_booking = Booking entry\<rparr>"

definition merge_plan :: "merge_commit_entry \<Rightarrow> call list" where
  "merge_plan entry =
     [GetDatabaseByID (DbID entry), GetRelationByID (DbID entry) (TableID entry)]
     @ drop_calls (DbID entry) (TableID entry) (MergedObjs entry)
     @ create_calls (DbID entry) (TableID entry) (CreatedObjectStats entry)
     @ [NewMergeObjectsEntry (txn_entry entry),
        LogTxnEntry (DbID entry) (TableID entry) (txn_entry entry) []]"

text \<open>The column indexes and names \<open>PrepareData\<close> requests, and the event of a failed read.\<close>

definition req_idxs :: "schema \<Rightarrow> int list" where
  "req_idxs s = map Idx (data_cols s)"

definition req_attrs :: "schema \<Rightarrow> string list" where
  "req_attrs s = map Name (data_cols s)"

definition failed_read :: "int list \<Rightarrow> (objid \<times> nat) \<Rightarrow> error \<Rightarrow> event" where
  "failed_read idxs p e = GetColumnDataByIds (fst p) (of_nat (snd p)) idxs (Inl e)"

section \<open>Example inputs\<close>

definition schema_pk :: schema where
  "schema_pk =
     \<lparr>SchemaName = ''orders'', Version = 1,
      ColDefs = [\<lparr>Name = ''k'', Idx = 0, SeqNum = 0, IsPhyAddr = False\<rparr>,
                 \<lparr>Name = ''v'', Idx = 1, SeqNum = 1, IsPhyAddr = False\<rparr>,
                 \<lparr>Name = ''__mo_rowid'', Idx = 2, SeqNum = 2, IsPhyAddr = True\<rparr>],
      BlockMaxRows = 1000,
      SortKey = Some \<lparr>sk_idx = 0, sk_primary = True\<rparr>\<rparr>"

definition view_kv :: block_view where
  "view_kv = \<lparr>Columns = [(0, [1, 2]), (1, [30, 40])], DeleteMask = None\<rparr>"

definition entry_two :: merge_commit_entry where
  "entry_two =
     \<lparr>DbID = 1, TableID = 2, Tablename = ''orders'', StartTs = 7,
      MergedObjs = [\<lparr>stats_ObjectId = 10, stats_Rows = 1500\<rparr>,
                    \<lparr>stats_ObjectId = 11, stats_Rows = 800\<rparr>],
      CreatedObjectStats = [\<lparr>stats_ObjectId = 20, stats_Rows = 2300\<rparr>],
      Booking = [(0, 5)]\<rparr>"

text \<open>
  A catalog and a reader that never fail; the engine succeeds and leaves \<open>entry_two\<close> as
  the commit entry of the task.
\<close>

definition env_ok :: env where
  "env_ok =
     \<lparr>catFails = (\<lambda>h c. None),
      relSchema = (\<lambda>d t. schema_pk),
      readBlock = (\<lambda>h obj blk idxs. Inr view_kv),
      txnStartTS = 7,
      engine = (\<lambda>h pos rows task. (None, task\<lparr>commitEntry := Some entry_two\<rparr>))\<rparr>"

text \<open>Two source objects that belong to different tables.\<close>

definition objs_two :: "object_entry list" where
  "objs_two =
     [\<lparr>ID = 10, GetTable = \<lparr>tbl_ID = 2, tbl_DB = \<lparr>db_ID = 1\<rparr>\<rparr>, BlockCnt = 2,
       GetObjectStats = \<lparr>stats_ObjectId = 10, stats_Rows = 1500\<rparr>\<rparr>,
      \<lparr>ID = 11, GetTable = \<lparr>tbl_ID = 4, tbl_DB = \<lparr>db_ID = 3\<rparr>\<rparr>, BlockCnt = 1,
       GetObjectStats = \<lparr>stats_ObjectId = 11, stats_Rows = 800\<rparr>\<rparr>]"

definition task_two :: merge_objects_task where
  "task_two =
     \<lparr>mergedObjs = objs_two,
      mergedObjsHandle = [\<lparr>oh_did = 1, oh_tid = 2, oh_id = 10\<rparr>,
                          \<lparr>oh_did = 1, oh_tid = 2, oh_id = 11\<rparr>],
      mergedBlkCnt = [0, 2], totalMergedBlkCnt = 3,
      createdBObjs = [], commitEntry = None,
      rel = \<lparr>rel_did = 1, rel_tid = 2, rel_schema = schema_pk\<rparr>,
      did = 1, tid = 2\<rparr>"

definition hist_two :: "event list" where
  "hist_two =
     [Cat (GetDatabaseByID 1) None, Cat (GetRelationByID 1 2) None,
      Cat (GetObject 1 2 10) None, Cat (GetObject 1 2 11) None]"

text \<open>An environment whose reads of object 11 fail, and one whose views lack a column.\<close>

definition env_read_fail :: env where
  "env_read_fail =
     \<lparr>catFails = (\<lambda>h c. None),
      relSchema = (\<lambda>d t. schema_pk),
      readBlock = (\<lambda>h obj blk idxs. if obj = 11 then Inl (ErrMsg ''io'') else Inr view_kv),
      txnStartTS = 7,
      engine = (\<lambda>h pos rows task. (None, task))\<rparr>"

definition view_k :: block_view where
  "view_k = \<lparr>Columns = [(0, [1, 2])], DeleteMask = None\<rparr>"

definition env_short :: env where
  "env_short =
     \<lparr>catFails = (\<lambda>h c. None),
      relSchema = (\<lambda>d t. schema_pk),
      readBlock = (\<lambda>h obj blk idxs. Inr view_k),
      txnStartTS = 7,
      engine = (\<lambda>h pos rows task. (None, task))\<rparr>"

definition env_short_fail :: env where
  "env_short_fail =
     \<lparr>catFails = (\<lambda>h c. None),
      relSchema = (\<lambda>d t. schema_pk),
      readBlock = (\<lambda>h obj blk idxs. if obj = 11 then Inl (ErrMsg ''io'') else Inr view_k),
      txnStartTS = 7,
      engine = (\<lambda>h pos rows task. (None, task))\<rparr>"

text \<open>
  A reader whose views have the two requested columns under the keys 1 and 2, as for a
  table whose physical-address column comes first.
\<close>

definition view_shifted :: block_view where
  "view_shifted = \<lparr>Columns = [(1, [1, 2]), (2, [30, 40])], DeleteMask = None\<rparr>"

definition env_shifted :: env where
  "env_shifted =
     \<lparr>catFails = (\<lambda>h c. None),
      relSchema = (\<lambda>d t. schema_pk),
      readBlock = (\<lambda>h obj blk idxs. Inr view_shifted),
      txnStartTS = 7,
      engine = (\<lambda>h pos rows task. (None, task))\<rparr>"

definition batch_kv :: batch where
  "batch_kv =
     \<lparr>Attrs = [''k'', ''v''], Vecs = [Some [1, 2], Some [30, 40]], RowCount = 2\<rparr>"

text \<open>
  A table without sort key, one whose sort key is not the primary key, a catalog whose
  soft delete of 11 fails, and an engine that fails.
\<close>

definition schema_nokey :: schema where
  "schema_nokey =
     \<lparr>SchemaName = ''events'', Version = 1,
      ColDefs = [\<lparr>Name = ''v'', Idx = 0, SeqNum = 0, IsPhyAddr = False\<rparr>,
                 \<lparr>Name = ''__mo_rowid'', Idx = 1, SeqNum = 1, IsPhyAddr = True\<rparr>],
      BlockMaxRows = 1000,
      SortKey = None\<rparr>"

definition schema_sk :: schema where
  "schema_sk =
     \<lparr>SchemaName = ''metrics'', Version = 3,
      ColDefs = [\<lparr>Name = ''v'', Idx = 0, SeqNum = 0, IsPhyAddr = False\<rparr>,
                 \<lparr>Name = ''ts'', Idx = 1, SeqNum = 1, IsPhyAddr = False\<rparr>,
                 \<lparr>Name = ''__mo_rowid'', Idx = 2, SeqNum = 2, IsPhyAddr = True\<rparr>],
      BlockMaxRows = 8192,
      SortKey = Some \<lparr>sk_idx = 1, sk_primary = False\<rparr>\<rparr>"

definition task_sk :: merge_objects_task where
  "task_sk =
     \<lparr>mergedObjs = objs_two,
      mergedObjsHandle = [\<lparr>oh_did = 1, oh_tid = 2, oh_id = 10\<rparr>,
                          \<lparr>oh_did = 1, oh_tid = 2, oh_id = 11\<rparr>],
      mergedBlkCnt = [0, 2], totalMergedBlkCnt = 3,
      createdBObjs = [], commitEntry = None,
      rel = \<lparr>rel_did = 1, rel_tid = 2, rel_schema = schema_sk\<rparr>,
      did = 1, tid = 2\<rparr>"

definition env_nokey :: env where
  "env_nokey =
     \<lparr>catFails = (\<lambda>h c. None),
      relSchema = (\<lambda>d t. schema_nokey),
      readBlock = (\<lambda>h obj blk idxs. Inr view_k),
      txnStartTS = 7,
      engine = (\<lambda>h pos rows task. (None, task\<lparr>commitEntry := Some entry_two\<rparr>))\<rparr>"

definition env_conflict :: env where
  "env_conflict =
     \<lparr>catFails = (\<lambda>h c. if c = SoftDeleteObject 1 2 11 then Some (ErrMsg ''w-w conflict'')
                           else None),
      relSchema = (\<lambda>d t. schema_pk),
      readBlock = (\<lambda>h obj blk idxs. Inr view_kv),
      txnStartTS = 7,
      engine = (\<lambda>h pos rows task. (None, task\<lparr>commitEntry := Some entry_two\<rparr>))\<rparr>"

definition env_engine_fail :: env where
  "env_engine_fail =
     \<lparr>catFails = (\<lambda>h c. None),
      relSchema = (\<lambda>d t. schema_pk),
      readBlock = (\<lambda>h obj blk idxs. Inr view_kv),
      txnStartTS = 7,
      engine = (\<lambda>h pos rows task. (Some (ErrMsg ''disk full''), task))\<rparr>"

text \<open>
  A commit entry with two created objects, and a catalog in which the statistics update
  of the second, object 21, fails.
\<close>

definition entry_three :: merge_commit_entry where
  "entry_three =
     \<lparr>DbID = 1, TableID = 2, Tablename = ''events'', StartTs = 7,
      MergedObjs = [\<lparr>stats_ObjectId = 10, stats_Rows = 1500\<rparr>],
      CreatedObjectStats = [\<lparr>stats_ObjectId = 20, stats_Rows = 1400\<rparr>,
                            \<lparr>stats_ObjectId = 21, stats_Rows = 100\<rparr>],
      Booking = []\<rparr>"

definition env_stats_fail :: env where
  "env_stats_fail =
     \<lparr>catFails = (\<lambda>h c. if c = UpdateStats 21 \<lparr>stats_ObjectId = 21, stats_Rows = 100\<rparr>
                           then Some (ErrMsg ''stats'') else None),
      relSchema = (\<lambda>d t. schema_nokey),
      readBlock = (\<lambda>h obj blk idxs. Inr view_k),
      txnStartTS = 7,
      engine = (\<lambda>h pos rows task. (None, task\<lparr>commitEntry := Some entry_three\<rparr>))\<rparr>"

definition hist_stats_fail :: "event list" where
  "hist_stats_fail =
     [Cat (GetDatabaseByID 1) None, Cat (GetRelationByID 1 2) None,
      Cat (GetObject 1 2 10) None, Cat (SoftDeleteObject 1 2 10) None,
      Cat (CreateNonAppendableObject 1 2 False 20) None,
      Cat (UpdateStats 20 \<lparr>stats_ObjectId = 20, stats_Rows = 1400\<rparr>) None,
      Cat (SetSorted 20) None,
      Cat (CreateNonAppendableObject 1 2 False 21) None,
      Cat (UpdateStats 21 \<lparr>stats_ObjectId = 21, stats_Rows = 100\<rparr>) (Some (ErrMsg ''stats''))]"

definition moe_two :: merge_objects_entry where
  "moe_two =
     \<lparr>moe_did = 1, moe_tid = 2, moe_dropped = [10, 11], moe_created = [20],
      moe_booking = [(0, 5)]\<rparr>"

definition hist_apply :: "event list" where
  "hist_apply =
     [Cat (GetDatabaseByID 1) None, Cat (GetRelationByID 1 2) None,
      Cat (GetObject 1 2 10) None, Cat (SoftDeleteObject 1 2 10) None,
      Cat (GetObject 1 2 11) None, Cat (SoftDeleteObject 1 2 11) None,
      Cat (CreateNonAppendableObject 1 2 False 20) None,
      Cat (UpdateStats 20 \<lparr>stats_ObjectId = 20, stats_Rows = 2300\<rparr>) None,
      Cat (SetSorted 20) None,
      Cat (NewMergeObjectsEntry moe_two) None,
      Cat (LogTxnEntry 1 2 moe_two []) None]"

definition hist_conflict :: "event list" where
  "hist_conflict =
     [Cat (GetDatabaseByID 1) None, Cat (GetRelationByID 1 2) None,
      Cat (GetObject 1 2 10) None, Cat (SoftDeleteObject 1 2 10) None,
      Cat (GetObject 1 2 11) None,
      Cat (SoftDeleteObject 1 2 11) (Some (ErrMsg ''w-w conflict''))]"

section \<open>The constructor\<close>

lemma length_offsets: "length (offsets s objs) = length objs"
  by (induction objs arbitrary: s) auto

lemma offsets_append:
  "offsets s (xs @ ys) = offsets s xs @ offsets (s + sum_list (map BlockCnt xs)) ys"
  by (induction xs arbitrary: s) (auto simp: add.assoc)

lemma fill_blkcnt_eq:
  "length cnts = i + length objs \<Longrightarrow>
   fill_blkcnt i objs (cnts, tot) =
     (take i cnts @ offsets tot objs, tot + sum_list (map BlockCnt objs))"
proof (induction objs arbitrary: i cnts tot)
  case Nil
  then show ?case by simp
next
  case (Cons obj objs)
  have "take (Suc i) (cnts[i := tot]) = take i cnts @ [tot]"
    using Cons.prems by (simp add: take_Suc_conv_app_nth)
  with Cons show ?case by (simp add: add.assoc)
qed

lemma get_handles_Ok:
  "get_handles E r objs acc h = (Ok hs, h') \<Longrightarrow>
   hs = acc @ map (\<lambda>m. \<lparr>oh_did = rel_did r, oh_tid = rel_tid r, oh_id = ID m\<rparr>) objs \<and>
   h' = h @ map (\<lambda>m. Cat (GetObject (rel_did r) (rel_tid r) (ID m)) None) objs"
proof (induction objs arbitrary: acc h)
  case Nil
  then show ?case by simp
next
  case (Cons meta metas)
  let ?c = "GetObject (rel_did r) (rel_tid r) (ID meta)"
  from Cons.prems have ok: "catFails E h ?c = None"
    by (auto simp: cat_call_def split: option.splits)
  with Cons.prems have
    "get_handles E r metas
       (acc @ [\<lparr>oh_did = rel_did r, oh_tid = rel_tid r, oh_id = ID meta\<rparr>])
       (h @ [Cat ?c None]) = (Ok hs, h')"
    by (simp add: cat_call_def)
  from Cons.IH [OF this] show ?case by simp
qed

lemma NewMergeObjectsTask_Ok:
  assumes "NewMergeObjectsTask E objs h = (Ok task, h')"
  shows "objs \<noteq> []"
    and "mergedObjs task = objs"
    and "mergedBlkCnt task = offsets 0 objs"
    and "totalMergedBlkCnt task = sum_list (map BlockCnt objs)"
    and "did task = db_ID (tbl_DB (GetTable (objs ! 0)))"
    and "tid task = tbl_ID (GetTable (objs ! 0))"
    and "rel task = \<lparr>rel_did = did task, rel_tid = tid task,
                      rel_schema = relSchema E (did task) (tid task)\<rparr>"
    and "mergedObjsHandle task =
           map (\<lambda>m. \<lparr>oh_did = did task, oh_tid = tid task, oh_id = ID m\<rparr>) objs"
    and "h' = h @ [Cat (GetDatabaseByID (did task)) None,
                   Cat (GetRelationByID (did task) (tid task)) None]
                @ map (\<lambda>m. Cat (GetObject (did task) (tid task) (ID m)) None) objs"
  using assms
  by (auto simp: NewMergeObjectsTask_def Let_def fill_blkcnt_eq cat_call_def
           split: if_splits option.splits outcome.splits prod.splits dest!: get_handles_Ok)

lemma NewMergeObjectsTask_two:
  "NewMergeObjectsTask env_ok objs_two [] = (Ok task_two, hist_two)"
  by (simp add: NewMergeObjectsTask_def env_ok_def objs_two_def task_two_def hist_two_def
        cat_call_def)

section \<open>The read loops of PrepareData\<close>

lemma slots_length: "length vs \<le> N \<Longrightarrow> length (slots N vs) = N"
  by (simp add: slots_def)

lemma slots_nth_None: "length vs < N \<Longrightarrow> slots N vs ! length vs = None"
  by (simp add: slots_def nth_append)

lemma slots_update:
  assumes "length vs < N"
  shows "(slots N vs)[length vs := Some v] = slots N (vs @ [v])"
proof -
  from assms obtain k where k: "N - length vs = Suc k" "N - Suc (length vs) = k"
    by (cases "N - length vs") auto
  then show ?thesis
    by (simp add: slots_def list_update_append)
qed

lemma slots_update_None:
  assumes "length vs < N"
  shows "(slots N vs)[length vs := None] = slots N vs"
  using slots_nth_None [OF assms] by (metis list_update_id)

lemma read_seq_append:
  "read_seq E idxs (ps @ qs) vs h =
     (case read_seq E idxs ps vs h of
        (None, vs', h') \<Rightarrow> read_seq E idxs qs vs' h'
      | (Some e, vs', h') \<Rightarrow> (Some e, vs', h'))"
  by (induction ps arbitrary: vs h) (auto simp: Let_def split: sum.splits)

lemma read_seq_length:
  "read_seq E idxs ps vs h = (None, vs', h') \<Longrightarrow> length vs' = length vs + length ps"
  by (induction ps arbitrary: vs h) (auto simp: Let_def split: sum.splits)

lemma read_blocks_seq:
  assumes "length vs = minOff + j0" and "length vs + (m - j0) \<le> N"
  shows "read_blocks E obj idxs minOff [j0 ..< m] (slots N vs) h =
           (case read_seq E idxs (map (Pair (oh_id obj)) [j0 ..< m]) vs h of
              (eo, vs', h') \<Rightarrow> (to_outcome eo, slots N vs', h'))"
  using assms
proof (induction "m - j0" arbitrary: j0 vs h)
  case 0
  then show ?case by simp
next
  case (Suc k)
  then have lt: "j0 < m" and up: "[j0 ..< m] = j0 # [Suc j0 ..< m]"
    by (auto simp: upt_conv_Cons)
  from Suc.prems lt have len: "length vs < N" by simp
  let ?r = "readBlock E h (oh_id obj) (of_nat j0 :: 16 word) idxs"
  let ?h' = "h @ [GetColumnDataByIds (oh_id obj) (of_nat j0) idxs ?r]"
  show ?case
  proof (cases ?r)
    case (Inl e)
    then show ?thesis
      using len Suc.prems(1) slots_update_None [OF len]
      by (simp add: up Let_def slots_length)
  next
    case (Inr v)
    have k: "k = m - Suc j0" using Suc.hyps(2) by simp
    have IH: "read_blocks E obj idxs minOff [Suc j0 ..< m] (slots N (vs @ [v])) ?h' =
           (case read_seq E idxs (map (Pair (oh_id obj)) [Suc j0 ..< m]) (vs @ [v]) ?h' of
              (eo, vs', h') \<Rightarrow> (to_outcome eo, slots N vs', h'))"
      using Suc.hyps(1) [OF k, of "vs @ [v]" ?h'] Suc.prems lt by simp
    show ?thesis
      using Inr len Suc.prems(1) slots_update [OF len, of v] IH
      by (simp add: up Let_def slots_length)
  qed
qed

lemma read_objects_seq:
  assumes "mergedObjs task = pre @ rest"
    and "mergedBlkCnt task = offsets 0 (pre @ rest)"
    and "totalMergedBlkCnt task = sum_list (map BlockCnt (pre @ rest))"
    and "length vs = sum_list (map BlockCnt pre)"
    and "N = sum_list (map BlockCnt (pre @ rest))"
    and "\<forall>k < length rest. oh_id (hs ! k) = ID (rest ! k)"
    and "length hs = length rest"
  shows "read_objects E task idxs (length pre) hs (slots N vs) h =
           (case read_seq E idxs (flat_blocks rest) vs h of
              (eo, vs', h') \<Rightarrow> (to_outcome eo, slots N vs', h'))"
  using assms
proof (induction rest arbitrary: pre vs h hs)
  case Nil
  then show ?case by (simp add: flat_blocks_def)
next
  case (Cons obj rest')
  from Cons.prems(6,7) obtain hd' hs' where hs: "hs = hd' # hs'"
    and hid: "oh_id hd' = ID obj" and hs'len: "length hs' = length rest'"
    and hs'id: "\<forall>k < length rest'. oh_id (hs' ! k) = ID (rest' ! k)"
    by (cases hs) (auto simp: nth_Cons split: nat.splits)
  let ?i = "length pre"
  let ?s = "sum_list (map BlockCnt pre)"
  have off: "mergedBlkCnt task = offsets 0 pre @ ?s # offsets (?s + BlockCnt obj) rest'"
    using Cons.prems(2) by (simp add: offsets_append)
  have min: "mergedBlkCnt task ! ?i = ?s"
    using off by (simp add: nth_append length_offsets)
  have lenc: "length (mergedBlkCnt task) = length pre + Suc (length rest')"
    using off by (simp add: length_offsets)
  have last_iff: "(int ?i \<noteq> int (length (mergedObjs task)) - 1) = (rest' \<noteq> [])"
    using Cons.prems(1) by auto
  have maxv: "(if int ?i \<noteq> int (length (mergedObjs task)) - 1
              then mergedBlkCnt task ! (?i + 1) else totalMergedBlkCnt task)
             = ?s + BlockCnt obj"
  proof (cases rest')
    case Nil
    then show ?thesis using last_iff Cons.prems(3) by simp
  next
    case (Cons o2 r2)
    then have "mergedBlkCnt task ! (?i + 1) = ?s + BlockCnt obj"
      using off by (simp add: nth_append length_offsets)
    then show ?thesis using last_iff Cons by simp
  qed
  have bound: "length vs + (BlockCnt obj - 0) \<le> N"
    using Cons.prems(4,5) by simp
  have inner: "read_blocks E hd' idxs ?s [0 ..< BlockCnt obj] (slots N vs) h =
           (case read_seq E idxs (map (Pair (ID obj)) [0 ..< BlockCnt obj]) vs h of
              (eo, vs', h') \<Rightarrow> (to_outcome eo, slots N vs', h'))"
    using read_blocks_seq [of vs ?s 0 "BlockCnt obj" N E hd' idxs h] Cons.prems(4) bound hid
    by simp
  have flat: "flat_blocks (obj # rest') = map (Pair (ID obj)) [0 ..< BlockCnt obj] @ flat_blocks rest'"
    by (simp add: flat_blocks_def)
  obtain eo vs1 h1 where rs: "read_seq E idxs (map (Pair (ID obj)) [0 ..< BlockCnt obj]) vs h = (eo, vs1, h1)"
    by (cases "read_seq E idxs (map (Pair (ID obj)) [0 ..< BlockCnt obj]) vs h") auto
  have nopanic: "\<not> (int ?i \<noteq> int (length (mergedObjs task)) - 1 \<and> length (mergedBlkCnt task) \<le> ?i + 1)"
    using last_iff lenc by (cases rest') auto
  have nopanic2: "\<not> length (mergedBlkCnt task) \<le> ?i" using lenc by simp
  have step: "read_objects E task idxs ?i (hd' # hs') (slots N vs) h =
      (case read_blocks E hd' idxs ?s [0 ..< BlockCnt obj] (slots N vs) h of
         (Ok u, views', h') \<Rightarrow> read_objects E task idxs (Suc ?i) hs' views' h'
       | (Err e, views', h') \<Rightarrow> (Err e, views', h')
       | (Panic m, views', h') \<Rightarrow> (Panic m, views', h'))"
    apply (subst read_objects.simps)
    apply (simp only: nopanic nopanic2 if_False Let_def min maxv)
    apply (simp only: add_diff_cancel_left')
    done
  show ?case
  proof (cases eo)
    case (Some e)
    then show ?thesis
      unfolding hs step inner flat read_seq_append rs by simp
  next
    case None
    from read_seq_length [OF rs [unfolded None]]
    have l1: "length vs1 = sum_list (map BlockCnt (pre @ [obj]))"
      using Cons.prems(4) by simp
    have IH: "read_objects E task idxs (Suc (length pre)) hs' (slots N vs1) h1 =
           (case read_seq E idxs (flat_blocks rest') vs1 h1 of
              (eo, vs', h') \<Rightarrow> (to_outcome eo, slots N vs', h'))"
      using Cons.IH [of "pre @ [obj]" vs1 hs' h1] Cons.prems(1,2,3,5) l1 hs'len hs'id
      by simp
    show ?thesis
      unfolding hs step inner flat read_seq_append rs None using IH by simp
  qed
qed

lemma collect_cols_eq:
  "collect_cols defs (idxs, attrs) =
     (idxs @ map Idx (filter (\<lambda>d. \<not> IsPhyAddr d) defs),
      attrs @ map Name (filter (\<lambda>d. \<not> IsPhyAddr d) defs))"
  by (induction defs arbitrary: idxs attrs) auto

lemma releaseF_slots: "releaseF (slots N vs) h = h @ map ViewClose vs"
proof -
  have nil: "releaseF (replicate n None) h = h" for n h
    by (induction n) auto
  have "releaseF (map Some vs @ replicate n None) h = h @ map ViewClose vs" for n
    by (induction vs arbitrary: h) (auto simp: nil)
  then show ?thesis by (simp add: slots_def)
qed

lemma slots_full: "length vs = N \<Longrightarrow> slots N vs = map Some vs"
  by (simp add: slots_def)

lemma ok_reads_Nil [simp]: "ok_reads idxs ps [] = []"
  by (simp add: ok_reads_def)

lemma ok_reads_Cons [simp]:
  "ok_reads idxs (p # ps) (v # ws) =
     GetColumnDataByIds (fst p) (of_nat (snd p)) idxs (Inr v) # ok_reads idxs ps ws"
  by (cases p) (simp add: ok_reads_def)

lemma read_seq_trace:
  "read_seq E idxs ps vs h = (eo, vs', h') \<Longrightarrow>
   \<exists>ws. vs' = vs @ ws \<and>
     (case eo of
        None \<Rightarrow> length ws = length ps \<and> h' = h @ ok_reads idxs ps ws
      | Some e \<Rightarrow> length ws < length ps \<and>
          h' = h @ ok_reads idxs ps ws @ [failed_read idxs (ps ! length ws) e])"
proof (induction ps arbitrary: vs h)
  case Nil
  then show ?case by auto
next
  case (Cons p ps)
  obtain obj j where p: "p = (obj, j)" by (cases p)
  let ?r = "readBlock E h obj (of_nat j :: 16 word) idxs"
  show ?case
  proof (cases ?r)
    case (Inl e)
    with Cons.prems show ?thesis
      by (auto simp: p Let_def failed_read_def)
  next
    case (Inr v)
    with Cons.prems have
      "read_seq E idxs ps (vs @ [v]) (h @ [GetColumnDataByIds obj (of_nat j) idxs (Inr v)])
         = (eo, vs', h')"
      by (simp add: p Let_def)
    from Cons.IH [OF this] obtain ws where
      ws: "vs' = (vs @ [v]) @ ws"
        "(case eo of
            None \<Rightarrow> length ws = length ps \<and>
              h' = (h @ [GetColumnDataByIds obj (of_nat j) idxs (Inr v)]) @ ok_reads idxs ps ws
          | Some e \<Rightarrow> length ws < length ps \<and>
              h' = (h @ [GetColumnDataByIds obj (of_nat j) idxs (Inr v)]) @ ok_reads idxs ps ws
                     @ [failed_read idxs (ps ! length ws) e])"
      by blast
    show ?thesis
      by (rule exI [of _ "v # ws"]) (use ws in \<open>auto simp: p split: option.splits\<close>)
  qed
qed

lemma read_failed_append: "read_failed (xs @ ys) = (read_failed xs \<or> read_failed ys)"
  by (induction xs rule: read_failed.induct) auto

lemma acquired_ok_reads: "length ws \<le> length ps \<Longrightarrow> acquired (ok_reads idxs ps ws) = ws"
proof (induction ps arbitrary: ws)
  case Nil
  then show ?case by simp
next
  case (Cons p ps)
  then show ?case by (cases ws) auto
qed

lemma closed_ok_reads: "closed (ok_reads idxs ps ws) = []"
proof (induction ps arbitrary: ws)
  case Nil
  then show ?case by (simp add: ok_reads_def)
next
  case (Cons p ps)
  then show ?case by (cases ws) auto
qed

lemma read_failed_ok_reads: "\<not> read_failed (ok_reads idxs ps ws)"
proof (induction ps arbitrary: ws)
  case Nil
  then show ?case by (simp add: ok_reads_def)
next
  case (Cons p ps)
  then show ?case by (cases ws) auto
qed

lemma length_flat_blocks: "length (flat_blocks objs) = sum_list (map BlockCnt objs)"
  by (induction objs) (simp_all add: flat_blocks_def)

lemma read_objects_flat:
  assumes "NewMergeObjectsTask E objs h0 = (Ok task, h1)"
  shows "read_objects E task idxs 0 (mergedObjsHandle task)
           (replicate (sum_list (map BlockCnt objs)) None) h =
      (case read_seq E idxs (flat_blocks objs) [] h of
         (eo, vs', h') \<Rightarrow> (to_outcome eo, slots (sum_list (map BlockCnt objs)) vs', h'))"
proof -
  note wf = NewMergeObjectsTask_Ok [OF assms]
  have ids: "\<forall>k < length objs. oh_id (mergedObjsHandle task ! k) = ID (objs ! k)"
    unfolding wf(8) by simp
  have len: "length (mergedObjsHandle task) = length objs"
    unfolding wf(8) by simp
  have "read_objects E task idxs (length ([] :: object_entry list)) (mergedObjsHandle task)
           (slots (sum_list (map BlockCnt objs)) []) h =
      (case read_seq E idxs (flat_blocks objs) [] h of
         (eo, vs', h') \<Rightarrow> (to_outcome eo, slots (sum_list (map BlockCnt objs)) vs', h'))"
    by (rule read_objects_seq [where pre = "[]" and rest = objs])
       (simp_all add: wf(2,3,4) ids len)
  then show ?thesis by (simp add: slots_def)
qed


lemma PrepareData_unfold:
  "PrepareData E task h =
     (if ColDefs (rel_schema (rel task)) = [] then (Panic ''makeslice: cap out of range'', h)
      else
        (case read_objects E task (req_idxs (rel_schema (rel task))) 0 (mergedObjsHandle task)
                (replicate (totalMergedBlkCnt task) None) h of
           (Err e, views', h') \<Rightarrow> (Err e, releaseF views' h')
         | (Panic m, views', h') \<Rightarrow> (Panic m, h')
         | (Ok u, views', h') \<Rightarrow>
             (case build_batches (req_attrs (rel_schema (rel task))) views' [] [] of
                Panic m \<Rightarrow> (Panic m, h')
              | Err e \<Rightarrow> (Err e, h')
              | Ok (batches, dels) \<Rightarrow> (Ok (batches, dels, views'), h'))))"
  by (simp only: PrepareData_def Let_def collect_cols_eq req_idxs_def req_attrs_def data_cols_def
        append_Nil prod.case)


lemma PrepareData_wf:
  assumes "NewMergeObjectsTask E objs h0 = (Ok task, h1)"
  shows "PrepareData E task h =
     (if ColDefs (rel_schema (rel task)) = [] then (Panic ''makeslice: cap out of range'', h)
      else
        (case read_seq E (req_idxs (rel_schema (rel task))) (flat_blocks objs) [] h of
           (Some e, ws, h') \<Rightarrow> (Err e, h' @ map ViewClose ws)
         | (None, ws, h') \<Rightarrow>
             (case build_batches (req_attrs (rel_schema (rel task))) (map Some ws) [] [] of
                Panic m \<Rightarrow> (Panic m, h')
              | Err e \<Rightarrow> (Err e, h')
              | Ok (batches, dels) \<Rightarrow> (Ok (batches, dels, map Some ws), h'))))"
proof -
  note wf = NewMergeObjectsTask_Ok [OF assms]
  let ?N = "sum_list (map BlockCnt objs)"
  let ?idxs = "req_idxs (rel_schema (rel task))"
  obtain eo ws h' where rs: "read_seq E ?idxs (flat_blocks objs) [] h = (eo, ws, h')"
    by (cases "read_seq E ?idxs (flat_blocks objs) [] h") auto
  have ro: "read_objects E task ?idxs 0 (mergedObjsHandle task)
              (replicate (totalMergedBlkCnt task) None) h = (to_outcome eo, slots ?N ws, h')"
    unfolding wf(4) read_objects_flat [OF assms] rs by simp
  show ?thesis
  proof (cases eo)
    case None
    from read_seq_length [OF rs [unfolded None]] have "length ws = ?N"
      by (simp add: length_flat_blocks)
    then have full: "slots ?N ws = map Some ws" by (rule slots_full)
    show ?thesis
      unfolding PrepareData_unfold ro rs None full by simp
  next
    case (Some e)
    show ?thesis
      unfolding PrepareData_unfold ro rs Some by (simp add: releaseF_slots)
  qed
qed

lemma build_batches_step:
  "build_batches attrs (Some view # views) bs ds =
     (case view_batch attrs view of
        Ok b \<Rightarrow> build_batches attrs views (bs @ [b]) (ds @ [DeleteMask view])
      | Err e \<Rightarrow> Err e
      | Panic m \<Rightarrow> Panic m)"
  by (simp add: view_batch_def split: option.splits)

declare build_batches.simps(3) [simp del]

lemma view_batch_no_Err: "view_batch attrs view \<noteq> Err e"
  by (simp add: view_batch_def split: option.splits)

lemma view_batch_Panic:
  "view_batch attrs view = Panic m \<Longrightarrow>
   m = ''mismatch'' \<or> m = ''index out of range'' \<or> m = ''nil pointer dereference''"
  by (auto simp: view_batch_def split: if_splits option.splits)

lemma view_batch_mismatch:
  "(view_batch attrs view = Panic ''mismatch'') = (view_len view \<noteq> length attrs)"
  by (auto simp: view_batch_def split: option.splits)

lemma keys_exact:
  assumes "length (remdups ks) = n" and "\<forall>k \<in> set ks. 0 \<le> k \<and> k < int n"
  shows "set ks = int ` {0 ..< n}"
proof (rule card_subset_eq)
  show "finite (int ` {0 ..< n})" by simp
  show "set ks \<subseteq> int ` {0 ..< n}"
  proof
    fix k assume "k \<in> set ks"
    with assms(2) have "0 \<le> k" "k < int n" by auto
    then have "nat k \<in> {0 ..< n}" "k = int (nat k)" by auto
    then show "k \<in> int ` {0 ..< n}" by blast
  qed
  have "card (set ks) = n" using assms(1) by (simp add: length_remdups_card_conv)
  moreover have "card (int ` {0 ..< n}) = n" by (simp add: card_image)
  ultimately show "card (set ks) = card (int ` {0 ..< n})" by simp
qed

lemma view_batch_Ok:
  assumes "view_batch attrs view = Ok b"
  shows "Attrs b = attrs"
    and "length (Vecs b) = length attrs"
    and "view_len view = length attrs"
    and "fst ` set (Columns view) = int ` {0 ..< length attrs}"
    and "\<forall>c < length attrs. \<exists>col. map_of (Columns view) (int c) = Some col \<and> Vecs b ! c = Some col"
    and "\<exists>col. map_of (Columns view) 0 = Some col \<and> RowCount b = length col"
proof -
  from assms obtain col0 where
    len: "view_len view = length attrs"
    and rng: "\<forall>k \<in> set (map fst (Columns view)). 0 \<le> k \<and> k < int (length attrs)"
    and c0: "map_of (Columns view) 0 = Some col0"
    and b: "b = \<lparr>Attrs = attrs,
                 Vecs = map (\<lambda>i. map_of (Columns view) (int i)) [0 ..< length attrs],
                 RowCount = length col0\<rparr>"
    by (auto simp: view_batch_def not_le not_less split: if_splits option.splits)
  from keys_exact [OF len [unfolded view_len_def] rng]
  have keys: "fst ` set (Columns view) = int ` {0 ..< length attrs}" by simp
  show "Attrs b = attrs" "length (Vecs b) = length attrs" by (simp_all add: b)
  show "view_len view = length attrs" by (rule len)
  show "fst ` set (Columns view) = int ` {0 ..< length attrs}" by (rule keys)
  show "\<exists>col. map_of (Columns view) 0 = Some col \<and> RowCount b = length col"
    using c0 by (simp add: b)
  show "\<forall>c < length attrs. \<exists>col. map_of (Columns view) (int c) = Some col \<and> Vecs b ! c = Some col"
  proof (intro allI impI)
    fix c assume c: "c < length attrs"
    then have "int c \<in> fst ` set (Columns view)" unfolding keys by simp
    then obtain col where "map_of (Columns view) (int c) = Some col"
      by (cases "map_of (Columns view) (int c)") (auto simp: map_of_eq_None_iff)
    with c show "\<exists>col. map_of (Columns view) (int c) = Some col \<and> Vecs b ! c = Some col"
      by (simp add: b)
  qed
qed

lemma build_batches_Ok:
  "build_batches attrs (map Some ws) bs ds = Ok (bs', ds') \<Longrightarrow>
   \<exists>bsn. bs' = bs @ bsn \<and> list_all2 (\<lambda>v b. view_batch attrs v = Ok b) ws bsn
        \<and> ds' = ds @ map DeleteMask ws"
proof (induction ws arbitrary: bs ds)
  case Nil
  then show ?case by simp
next
  case (Cons w ws)
  from Cons.prems obtain b where b: "view_batch attrs w = Ok b"
    and rest: "build_batches attrs (map Some ws) (bs @ [b]) (ds @ [DeleteMask w]) = Ok (bs', ds')"
    by (cases "view_batch attrs w") (simp_all add: build_batches_step)
  from Cons.IH [OF rest] obtain bsn where
    "bs' = (bs @ [b]) @ bsn" "list_all2 (\<lambda>v b. view_batch attrs v = Ok b) ws bsn"
    "ds' = (ds @ [DeleteMask w]) @ map DeleteMask ws"
    by blast
  with b show ?case
    by (intro exI [of _ "b # bsn"]) simp
qed

lemma build_batches_no_Err: "build_batches attrs views bs ds \<noteq> Err e"
  by (induction attrs views bs ds rule: build_batches.induct)
     (auto simp: build_batches.simps split: option.splits)

lemma build_batches_Panic:
  "build_batches attrs (map Some ws) bs ds = Panic m \<Longrightarrow>
   m = ''mismatch'' \<or> m = ''index out of range'' \<or> m = ''nil pointer dereference''"
proof (induction ws arbitrary: bs ds)
  case Nil
  then show ?case by simp
next
  case (Cons w ws)
  show ?case
  proof (cases "view_batch attrs w")
    case (Ok b)
    with Cons.prems have
      "build_batches attrs (map Some ws) (bs @ [b]) (ds @ [DeleteMask w]) = Panic m"
      by (simp add: build_batches_step)
    from Cons.IH [OF this] show ?thesis .
  next
    case (Err e)
    then show ?thesis by (simp add: view_batch_no_Err)
  next
    case (Panic m')
    with Cons.prems have "m = m'" by (simp add: build_batches_step)
    with Panic view_batch_Panic show ?thesis by blast
  qed
qed

lemma build_batches_mismatch:
  "\<exists>v \<in> set ws. view_len v \<noteq> length attrs \<Longrightarrow>
   \<exists>m. build_batches attrs (map Some ws) bs ds = Panic m"
proof (induction ws arbitrary: bs ds)
  case Nil
  then show ?case by simp
next
  case (Cons w ws)
  show ?case
  proof (cases "view_batch attrs w")
    case (Ok b)
    from view_batch_Ok(3) [OF Ok] Cons.prems
    have "\<exists>v \<in> set ws. view_len v \<noteq> length attrs" by auto
    from Cons.IH [OF this] Ok show ?thesis by (simp add: build_batches_step)
  next
    case (Err e)
    then show ?thesis by (simp add: view_batch_no_Err)
  next
    case (Panic m')
    then show ?thesis by (simp add: build_batches_step)
  qed
qed

lemma build_batches_match:
  "\<forall>v \<in> set ws. view_len v = length attrs \<Longrightarrow>
   build_batches attrs (map Some ws) bs ds \<noteq> Panic ''mismatch''"
proof (induction ws arbitrary: bs ds)
  case Nil
  then show ?case by simp
next
  case (Cons w ws)
  then have w: "view_batch attrs w \<noteq> Panic ''mismatch''"
    by (simp add: view_batch_mismatch)
  show ?case
  proof (cases "view_batch attrs w")
    case (Ok b)
    with Cons show ?thesis by (simp add: build_batches_step)
  next
    case (Err e)
    then show ?thesis by (simp add: view_batch_no_Err)
  next
    case (Panic m')
    with w show ?thesis by (simp add: build_batches_step)
  qed
qed

lemma flat_blocks_nth:
  "i < length objs \<Longrightarrow> j < BlockCnt (objs ! i) \<Longrightarrow>
   flat_blocks objs ! (prefixSum objs i + j) = (ID (objs ! i), j)"
proof (induction objs arbitrary: i)
  case Nil
  then show ?case by simp
next
  case (Cons obj objs)
  have flat: "flat_blocks (obj # objs) = map (Pair (ID obj)) [0 ..< BlockCnt obj] @ flat_blocks objs"
    by (simp add: flat_blocks_def)
  show ?case
  proof (cases i)
    case 0
    with Cons.prems show ?thesis
      by (simp add: flat prefixSum_def nth_append del: upt.simps)
  next
    case (Suc i')
    with Cons.prems have "flat_blocks objs ! (prefixSum objs i' + j) = (ID (objs ! i'), j)"
      by (intro Cons.IH) auto
    with Suc show ?thesis
      by (simp add: flat prefixSum_def nth_append add.assoc del: upt.simps)
  qed
qed

lemma prefixSum_bound:
  "i < length objs \<Longrightarrow> j < BlockCnt (objs ! i) \<Longrightarrow>
   prefixSum objs i + j < sum_list (map BlockCnt objs)"
proof (induction objs arbitrary: i)
  case Nil
  then show ?case by simp
next
  case (Cons obj objs)
  show ?case
  proof (cases i)
    case 0
    with Cons.prems show ?thesis by (simp add: prefixSum_def)
  next
    case (Suc i')
    with Cons.prems have "prefixSum objs i' + j < sum_list (map BlockCnt objs)"
      by (intro Cons.IH) auto
    with Suc show ?thesis by (simp add: prefixSum_def)
  qed
qed

lemma ok_reads_nth:
  "length ws = length ps \<Longrightarrow> k < length ps \<Longrightarrow>
   ok_reads idxs ps ws ! k =
     GetColumnDataByIds (fst (ps ! k)) (of_nat (snd (ps ! k))) idxs (Inr (ws ! k))"
  by (simp add: ok_reads_def split: prod.splits)

lemma length_ok_reads: "length (ok_reads idxs ps ws) = min (length ps) (length ws)"
  by (simp add: ok_reads_def)

lemma PrepareData_two_ok:
  "PrepareData env_ok task_two [] =
    (Ok ([batch_kv, batch_kv, batch_kv], [None, None, None],
         [Some view_kv, Some view_kv, Some view_kv]),
     [GetColumnDataByIds 10 0 [0, 1] (Inr view_kv),
      GetColumnDataByIds 10 1 [0, 1] (Inr view_kv),
      GetColumnDataByIds 11 0 [0, 1] (Inr view_kv)])"
  by code_simp

lemma PrepareData_two_read_fail:
  "PrepareData env_read_fail task_two [] =
    (Err (ErrMsg ''io''),
     [GetColumnDataByIds 10 0 [0, 1] (Inr view_kv),
      GetColumnDataByIds 10 1 [0, 1] (Inr view_kv),
      GetColumnDataByIds 11 0 [0, 1] (Inl (ErrMsg ''io'')),
      ViewClose view_kv, ViewClose view_kv])"
  by code_simp

lemma NewMergeObjectsTask_two_read_fail:
  "NewMergeObjectsTask env_read_fail objs_two [] = (Ok task_two, hist_two)"
  by code_simp

text \<open>What a run of PrepareData on a constructed task looks like.\<close>

lemma PrepareData_cases:
  assumes "NewMergeObjectsTask E objs h0 = (Ok task, h1)"
    and "PrepareData E task h = (res, h')"
  shows "(ColDefs (rel_schema (rel task)) = [] \<and> res = Panic ''makeslice: cap out of range'' \<and> h' = h)
    \<or> (\<exists>ws e. length ws < length (flat_blocks objs) \<and> res = Err e \<and>
          h' = h @ ok_reads (req_idxs (rel_schema (rel task))) (flat_blocks objs) ws
                 @ [failed_read (req_idxs (rel_schema (rel task))) (flat_blocks objs ! length ws) e]
                 @ map ViewClose ws)
    \<or> (\<exists>ws. length ws = length (flat_blocks objs) \<and>
          h' = h @ ok_reads (req_idxs (rel_schema (rel task))) (flat_blocks objs) ws \<and>
          ((\<exists>m. build_batches (req_attrs (rel_schema (rel task))) (map Some ws) [] [] = Panic m
                \<and> res = Panic m)
           \<or> (\<exists>batches dels.
                build_batches (req_attrs (rel_schema (rel task))) (map Some ws) [] []
                  = Ok (batches, dels)
                \<and> res = Ok (batches, dels, map Some ws))))"
proof (cases "ColDefs (rel_schema (rel task)) = []")
  case True
  with assms(2) show ?thesis
    unfolding PrepareData_wf [OF assms(1)] by simp
next
  case False
  let ?idxs = "req_idxs (rel_schema (rel task))"
  obtain eo ws h2 where rs: "read_seq E ?idxs (flat_blocks objs) [] h = (eo, ws, h2)"
    by (cases "read_seq E ?idxs (flat_blocks objs) [] h") auto
  from read_seq_trace [OF rs] have tr:
    "case eo of
       None \<Rightarrow> length ws = length (flat_blocks objs) \<and> h2 = h @ ok_reads ?idxs (flat_blocks objs) ws
     | Some e \<Rightarrow> length ws < length (flat_blocks objs) \<and>
         h2 = h @ ok_reads ?idxs (flat_blocks objs) ws
                @ [failed_read ?idxs (flat_blocks objs ! length ws) e]"
    by simp
  show ?thesis
  proof (cases eo)
    case (Some e)
    with assms(2) False rs tr have "res = Err e" "h' = h2 @ map ViewClose ws"
      unfolding PrepareData_wf [OF assms(1)] by simp_all
    with tr Some show ?thesis by auto
  next
    case None
    with tr have l: "length ws = length (flat_blocks objs)"
      and h2: "h2 = h @ ok_reads ?idxs (flat_blocks objs) ws" by simp_all
    from assms(2) False rs None have
      "(case build_batches (req_attrs (rel_schema (rel task))) (map Some ws) [] [] of
          Panic m \<Rightarrow> (Panic m, h2)
        | Err e \<Rightarrow> (Err e, h2)
        | Ok (batches, dels) \<Rightarrow> (Ok (batches, dels, map Some ws), h2)) = (res, h')"
      unfolding PrepareData_wf [OF assms(1)] by simp
    then have "h' = h2 \<and>
       ((\<exists>m. build_batches (req_attrs (rel_schema (rel task))) (map Some ws) [] [] = Panic m
            \<and> res = Panic m)
        \<or> (\<exists>batches dels.
             build_batches (req_attrs (rel_schema (rel task))) (map Some ws) [] []
               = Ok (batches, dels)
             \<and> res = Ok (batches, dels, map Some ws)))"
      using build_batches_no_Err [of "req_attrs (rel_schema (rel task))" "map Some ws" "[]" "[]"]
      by (cases "build_batches (req_attrs (rel_schema (rel task))) (map Some ws) [] []") auto
    with l h2 show ?thesis by blast
  qed
qed

lemma releaseF_Some: "releaseF (map Some ws) h = h @ map ViewClose ws"
  using releaseF_slots [of "length ws" ws h] by (simp add: slots_def)

lemma NewMergeObjectsTask_two_short:
  "NewMergeObjectsTask env_short objs_two [] = (Ok task_two, hist_two)"
  by code_simp

lemma NewMergeObjectsTask_two_short_fail:
  "NewMergeObjectsTask env_short_fail objs_two [] = (Ok task_two, hist_two)"
  by code_simp

lemma PrepareData_two_short:
  "PrepareData env_short task_two [] =
    (Panic ''mismatch'',
     [GetColumnDataByIds 10 0 [0, 1] (Inr view_k),
      GetColumnDataByIds 10 1 [0, 1] (Inr view_k),
      GetColumnDataByIds 11 0 [0, 1] (Inr view_k)])"
  by code_simp

lemma PrepareData_two_short_fail:
  "PrepareData env_short_fail task_two [] =
    (Err (ErrMsg ''io''),
     [GetColumnDataByIds 10 0 [0, 1] (Inr view_k),
      GetColumnDataByIds 10 1 [0, 1] (Inr view_k),
      GetColumnDataByIds 11 0 [0, 1] (Inl (ErrMsg ''io'')),
      ViewClose view_k, ViewClose view_k])"
  by code_simp

lemma PrepareData_two_shifted:
  "PrepareData env_shifted task_two [] =
    (Panic ''index out of range'',
     [GetColumnDataByIds 10 0 [0, 1] (Inr view_shifted),
      GetColumnDataByIds 10 1 [0, 1] (Inr view_shifted),
      GetColumnDataByIds 11 0 [0, 1] (Inr view_shifted)])"
  by code_simp

section \<open>The catalog apply as a list of calls\<close>

lemma run_calls_append:
  "run_calls E (cs @ ds) h =
     (case run_calls E cs h of
        (None, h') \<Rightarrow> run_calls E ds h'
      | (Some e, h') \<Rightarrow> (Some e, h'))"
  by (induction cs arbitrary: h) (auto split: option.splits)

lemma run_calls_trace:
  "run_calls E cs h = (eo, h') \<Longrightarrow>
   (case eo of
      None \<Rightarrow> h' = h @ oks cs
    | Some e \<Rightarrow> \<exists>n < length cs. h' = h @ oks (take n cs) @ [Cat (cs ! n) (Some e)])"
proof (induction cs arbitrary: h)
  case Nil
  then show ?case by (simp add: oks_def)
next
  case (Cons c cs)
  show ?case
  proof (cases "call_result E h c")
    case (Some e)
    with Cons.prems have "eo = Some e" "h' = h @ [Cat c (Some e)]" by auto
    then have "0 < length (c # cs) \<and>
        h' = h @ oks (take 0 (c # cs)) @ [Cat ((c # cs) ! 0) (Some e)]"
      by (simp add: oks_def)
    with \<open>eo = Some e\<close> show ?thesis by (simp only: option.case) blast
  next
    case None
    with Cons.prems have "run_calls E cs (h @ [Cat c None]) = (eo, h')" by simp
    from Cons.IH [OF this] show ?thesis
    proof (cases eo)
      case None
      with \<open>case eo of None \<Rightarrow> _ | Some e \<Rightarrow> _\<close> show ?thesis by (simp add: oks_def)
    next
      case (Some e)
      with \<open>case eo of None \<Rightarrow> _ | Some e \<Rightarrow> _\<close> obtain n where
        "n < length cs" "h' = (h @ [Cat c None]) @ oks (take n cs) @ [Cat (cs ! n) (Some e)]"
        by auto
      then have "Suc n < length (c # cs) \<and>
          h' = h @ oks (take (Suc n) (c # cs)) @ [Cat ((c # cs) ! Suc n) (Some e)]"
        by (simp add: oks_def)
      with Some show ?thesis by (simp only: option.case) blast
    qed
  qed
qed

lemma drop_merged_calls:
  "drop_merged E r sts acc h =
     (case run_calls E (drop_calls (rel_did r) (rel_tid r) sts) h of
        (None, h') \<Rightarrow> (Ok (acc @ map stats_ObjectId sts), h')
      | (Some e, h') \<Rightarrow> (Err e, h'))"
proof (induction sts arbitrary: acc h)
  case Nil
  then show ?case by (simp add: drop_calls_def)
next
  case (Cons s sts)
  have dc: "drop_calls (rel_did r) (rel_tid r) (s # sts) =
      GetObject (rel_did r) (rel_tid r) (stats_ObjectId s)
      # SoftDeleteObject (rel_did r) (rel_tid r) (stats_ObjectId s)
      # drop_calls (rel_did r) (rel_tid r) sts"
    by (simp add: drop_calls_def)
  show ?case
    unfolding dc
    by (auto simp: Cons.IH cat_call_def call_result_def Let_def
          split: option.splits prod.splits)
qed

lemma create_objs_calls:
  "create_objs E r sts acc h =
     (case run_calls E (create_calls (rel_did r) (rel_tid r) sts) h of
        (None, h') \<Rightarrow> (Ok (acc @ map stats_ObjectId sts), h')
      | (Some e, h') \<Rightarrow> (Err e, h'))"
proof (induction sts arbitrary: acc h)
  case Nil
  then show ?case by (simp add: create_calls_def)
next
  case (Cons s sts)
  have cc: "create_calls (rel_did r) (rel_tid r) (s # sts) =
      CreateNonAppendableObject (rel_did r) (rel_tid r) False (stats_ObjectId s)
      # UpdateStats (stats_ObjectId s) s
      # SetSorted (stats_ObjectId s)
      # create_calls (rel_did r) (rel_tid r) sts"
    by (simp add: create_calls_def)
  show ?case
    unfolding cc
    by (auto simp: Cons.IH cat_call_def call_result_def Let_def
          split: option.splits prod.splits)
qed

lemma HandleMergeEntryInTxn_calls:
  "HandleMergeEntryInTxn E entry h =
     (case run_calls E (merge_plan entry) h of
        (None, h') \<Rightarrow> (Ok (map stats_ObjectId (CreatedObjectStats entry)), h')
      | (Some e, h') \<Rightarrow> (Err e, h'))"
proof -
  let ?d = "DbID entry" and ?t = "TableID entry"
  let ?r = "\<lparr>rel_did = ?d, rel_tid = ?t, rel_schema = relSchema E ?d ?t\<rparr>"
  have te: "\<lparr>moe_did = rel_did ?r, moe_tid = rel_tid ?r,
             moe_dropped = map stats_ObjectId (MergedObjs entry),
             moe_created = map stats_ObjectId (CreatedObjectStats entry),
             moe_booking = Booking entry\<rparr> = txn_entry entry"
    by (simp add: txn_entry_def)
  show ?thesis
    unfolding HandleMergeEntryInTxn_def merge_plan_def Let_def
      drop_merged_calls create_objs_calls
    by (auto simp: run_calls_append cat_call_def call_result_def txn_entry_def
          split: option.splits prod.splits)
qed

lemma HandleMergeEntryInTxn_nokey:
  "HandleMergeEntryInTxn env_nokey entry_two [] = (Ok [20], hist_apply)"
  by code_simp

lemma HandleMergeEntryInTxn_ok:
  "HandleMergeEntryInTxn env_ok entry_two [] = (Ok [20], hist_apply)"
  by code_simp

lemma HandleMergeEntryInTxn_conflict:
  "HandleMergeEntryInTxn env_conflict entry_two [] = (Err (ErrMsg ''w-w conflict''), hist_conflict)"
  by code_simp

lemma not_call_failed_oks: "ev \<in> set (oks cs) \<Longrightarrow> \<not> call_failed ev"
  by (auto simp: oks_def)

lemma run_calls_relSchema:
  "run_calls (E\<lparr>relSchema := f\<rparr>) cs h = run_calls E cs h"
  by (induction cs arbitrary: h) (auto simp: call_result_def split: option.splits call.splits)

lemma SetSorted_in_create_calls:
  "s \<in> set sts \<Longrightarrow> SetSorted (stats_ObjectId s) \<in> set (create_calls d t sts)"
  by (auto simp: create_calls_def)

lemma HandleMergeEntryInTxn_stats_fail:
  "HandleMergeEntryInTxn env_stats_fail entry_three [] = (Err (ErrMsg ''stats''), hist_stats_fail)"
  by code_simp

lemma run_calls_fail:
  "run_calls E cs h = (Some e, h') \<Longrightarrow>
   \<exists>n < length cs. h' = h @ oks (take n cs) @ [Cat (cs ! n) (Some e)]
                  \<and> (\<forall>i. cs ! n \<noteq> SetSorted i)"
proof (induction cs arbitrary: h)
  case Nil
  then show ?case by simp
next
  case (Cons c cs)
  show ?case
  proof (cases "call_result E h c")
    case (Some e')
    with Cons.prems have "e' = e" "h' = h @ [Cat c (Some e)]" by auto
    moreover from Some have "\<forall>i. c \<noteq> SetSorted i"
      by (auto simp: call_result_def)
    ultimately have "0 < length (c # cs) \<and>
        h' = h @ oks (take 0 (c # cs)) @ [Cat ((c # cs) ! 0) (Some e)]
        \<and> (\<forall>i. (c # cs) ! 0 \<noteq> SetSorted i)"
      by (simp add: oks_def)
    then show ?thesis by blast
  next
    case None
    with Cons.prems have "run_calls E cs (h @ [Cat c None]) = (Some e, h')" by simp
    from Cons.IH [OF this] obtain n where
      "n < length cs" "h' = (h @ [Cat c None]) @ oks (take n cs) @ [Cat (cs ! n) (Some e)]"
      "\<forall>i. cs ! n \<noteq> SetSorted i"
      by blast
    then have "Suc n < length (c # cs) \<and>
        h' = h @ oks (take (Suc n) (c # cs)) @ [Cat ((c # cs) ! Suc n) (Some e)]
        \<and> (\<forall>i. (c # cs) ! Suc n \<noteq> SetSorted i)"
      by (simp add: oks_def)
    then show ?thesis by blast
  qed
qed

lemma stats_then_sorted_append:
  assumes "stats_then_sorted xs" and "stats_then_sorted ys"
  shows "stats_then_sorted (xs @ ys)"
  unfolding stats_then_sorted_def
proof (intro allI impI, elim conjE)
  fix k i st
  assume k: "k < length (xs @ ys)" and u: "(xs @ ys) ! k = UpdateStats i st"
  show "Suc k < length (xs @ ys) \<and> (xs @ ys) ! Suc k = SetSorted i"
  proof (cases "k < length xs")
    case True
    with u have "xs ! k = UpdateStats i st" by (simp add: nth_append)
    with assms(1) True have "Suc k < length xs" "xs ! Suc k = SetSorted i"
      unfolding stats_then_sorted_def by blast+
    then show ?thesis by (simp add: nth_append)
  next
    case False
    with u k have "k - length xs < length ys" "ys ! (k - length xs) = UpdateStats i st"
      by (simp_all add: nth_append)
    with assms(2) have "Suc (k - length xs) < length ys"
      "ys ! Suc (k - length xs) = SetSorted i"
      unfolding stats_then_sorted_def by blast+
    moreover from False have "Suc k - length xs = Suc (k - length xs)" by simp
    ultimately show ?thesis using False by (simp add: nth_append)
  qed
qed

lemma stats_then_sorted_none:
  "\<forall>c \<in> set cs. \<forall>i st. c \<noteq> UpdateStats i st \<Longrightarrow> stats_then_sorted cs"
  unfolding stats_then_sorted_def by (metis nth_mem)

lemma stats_then_sorted_drop_calls: "stats_then_sorted (drop_calls d t sts)"
  by (rule stats_then_sorted_none) (auto simp: drop_calls_def)

lemma stats_then_sorted_create_calls: "stats_then_sorted (create_calls d t sts)"
proof (induction sts)
  case Nil
  then show ?case by (simp add: create_calls_def stats_then_sorted_def)
next
  case (Cons s sts)
  have one: "stats_then_sorted
      [CreateNonAppendableObject d t False (stats_ObjectId s),
       UpdateStats (stats_ObjectId s) s, SetSorted (stats_ObjectId s)]"
    unfolding stats_then_sorted_def
  proof (intro allI impI, elim conjE)
    fix k i st
    assume "k < length [CreateNonAppendableObject d t False (stats_ObjectId s),
       UpdateStats (stats_ObjectId s) s, SetSorted (stats_ObjectId s)]"
      and "[CreateNonAppendableObject d t False (stats_ObjectId s),
       UpdateStats (stats_ObjectId s) s, SetSorted (stats_ObjectId s)] ! k = UpdateStats i st"
    then have "k = 1 \<and> i = stats_ObjectId s"
      by (cases k; cases "k - 1"; cases "k - 2") auto
    then show "Suc k < length [CreateNonAppendableObject d t False (stats_ObjectId s),
       UpdateStats (stats_ObjectId s) s, SetSorted (stats_ObjectId s)] \<and>
       [CreateNonAppendableObject d t False (stats_ObjectId s),
       UpdateStats (stats_ObjectId s) s, SetSorted (stats_ObjectId s)] ! Suc k = SetSorted i"
      by simp
  qed
  have "create_calls d t (s # sts) =
      [CreateNonAppendableObject d t False (stats_ObjectId s),
       UpdateStats (stats_ObjectId s) s, SetSorted (stats_ObjectId s)] @ create_calls d t sts"
    by (simp add: create_calls_def)
  with stats_then_sorted_append [OF one Cons.IH] show ?case by simp
qed

lemma stats_then_sorted_merge_plan: "stats_then_sorted (merge_plan entry)"
  unfolding merge_plan_def
  by (intro stats_then_sorted_append stats_then_sorted_drop_calls
        stats_then_sorted_create_calls stats_then_sorted_none) auto

lemma oks_prefix_sorted:
  assumes P: "stats_then_sorted cs" and n: "n \<le> length cs"
    and ns: "n < length cs \<Longrightarrow> \<forall>i. cs ! n \<noteq> SetSorted i"
    and rest: "\<forall>ev \<in> set rest. \<forall>c. ev \<noteq> Cat c None"
    and k: "k < length (oks (take n cs) @ rest)"
    and u: "(oks (take n cs) @ rest) ! k = Cat (UpdateStats i st) None"
  shows "Suc k < length (oks (take n cs) @ rest)
       \<and> (oks (take n cs) @ rest) ! Suc k = Cat (SetSorted i) None"
proof -
  have lo: "length (oks (take n cs)) = n" using n by (simp add: oks_def)
  have kn: "k < n"
  proof (rule ccontr)
    assume "\<not> k < n"
    with k u lo have "rest ! (k - n) = Cat (UpdateStats i st) None" "k - n < length rest"
      by (simp_all add: nth_append)
    then have "Cat (UpdateStats i st) None \<in> set rest" by (metis nth_mem)
    with rest show False by blast
  qed
  with u lo n have "cs ! k = UpdateStats i st"
    by (simp add: nth_append oks_def)
  with P kn n have s: "Suc k < length cs" "cs ! Suc k = SetSorted i"
    unfolding stats_then_sorted_def by (meson less_le_trans)+
  have "Suc k \<noteq> n"
  proof
    assume "Suc k = n"
    with s ns show False by auto
  qed
  with kn have "Suc k < n" by simp
  with s lo n show ?thesis by (simp add: nth_append oks_def)
qed

lemma HandleMergeEntryInTxn_trace:
  assumes "HandleMergeEntryInTxn E entry h = (res, h')"
  shows "\<exists>n rest. n \<le> length (merge_plan entry)
     \<and> (n < length (merge_plan entry) \<longrightarrow> (\<forall>i. merge_plan entry ! n \<noteq> SetSorted i))
     \<and> (\<forall>ev \<in> set rest. \<forall>c. ev \<noteq> Cat c None)
     \<and> h' = h @ oks (take n (merge_plan entry)) @ rest"
proof -
  obtain eo h2 where rc: "run_calls E (merge_plan entry) h = (eo, h2)"
    by (cases "run_calls E (merge_plan entry) h") auto
  show ?thesis
  proof (cases eo)
    case None
    with assms rc have "h2 = h'" unfolding HandleMergeEntryInTxn_calls by simp
    with run_calls_trace [OF rc] None have "h' = h @ oks (merge_plan entry)" by simp
    then have "length (merge_plan entry) \<le> length (merge_plan entry)
     \<and> (length (merge_plan entry) < length (merge_plan entry) \<longrightarrow>
          (\<forall>i. merge_plan entry ! length (merge_plan entry) \<noteq> SetSorted i))
     \<and> (\<forall>ev \<in> set []. \<forall>c. ev \<noteq> Cat c None)
     \<and> h' = h @ oks (take (length (merge_plan entry)) (merge_plan entry)) @ []"
      by simp
    then show ?thesis by blast
  next
    case (Some e)
    with assms rc have "h2 = h'" unfolding HandleMergeEntryInTxn_calls by simp
    with run_calls_fail [OF rc [unfolded Some]] obtain n where
      n: "n < length (merge_plan entry)"
      "h' = h @ oks (take n (merge_plan entry)) @ [Cat (merge_plan entry ! n) (Some e)]"
      "\<forall>i. merge_plan entry ! n \<noteq> SetSorted i"
      by blast
    then have "n \<le> length (merge_plan entry)
     \<and> (n < length (merge_plan entry) \<longrightarrow> (\<forall>i. merge_plan entry ! n \<noteq> SetSorted i))
     \<and> (\<forall>ev \<in> set [Cat (merge_plan entry ! n) (Some e)]. \<forall>c. ev \<noteq> Cat c None)
     \<and> h' = h @ oks (take n (merge_plan entry)) @ [Cat (merge_plan entry ! n) (Some e)]"
      by simp
    then show ?thesis by blast
  qed
qed

section \<open>Execute and the writer factory\<close>

lemma sortkey_no_panic:
  "(if HasSortKey s then GetSingleSortKeyIdx s else Ok (- 1)) = Ok (sortkey_pos s)"
  by (simp add: HasSortKey_def GetSingleSortKeyIdx_def sortkey_pos_def split: option.splits)

lemma collect_seqnums_eq:
  "collect_seqnums defs acc = acc @ map SeqNum (filter (\<lambda>d. \<not> IsPhyAddr d) defs)"
  by (induction defs arbitrary: acc) auto

lemma PrepareNewWriterFunc_Ok:
  assumes "PrepareNewWriterFunc task = Ok w"
  shows "w_sortkeyPos w = sortkey_pos (rel_schema (rel task))
   \<and> w_sortkeyIsPK w = HasPK (rel_schema (rel task))
   \<and> w_version w = Version (rel_schema (rel task))
   \<and> w_seqnums w = map SeqNum (data_cols (rel_schema (rel task)))"
  using assms
  by (auto simp: PrepareNewWriterFunc_def Let_def HasPK_def HasSortKey_def
        GetSingleSortKeyIdx_def collect_seqnums_eq data_cols_def sortkey_pos_def
        split: if_splits option.splits)

lemma Execute_unfold:
  "Execute E task h =
     (case engine E h (sortkey_pos (rel_schema (rel task)))
             (BlockMaxRows (rel_schema (rel task))) task of
        (Some e, task1) \<Rightarrow>
          (Err e, task1,
           h @ [DoMergeAndWrite (sortkey_pos (rel_schema (rel task)))
                  (BlockMaxRows (rel_schema (rel task))) (Some e),
                LogError e ''1-DoMergeAndWrite''])
      | (None, task1) \<Rightarrow>
          (case commitEntry task1 of
             None \<Rightarrow>
               (Panic ''nil pointer dereference'', task1,
                h @ [DoMergeAndWrite (sortkey_pos (rel_schema (rel task)))
                       (BlockMaxRows (rel_schema (rel task))) None])
           | Some entry \<Rightarrow>
               (case run_calls E (merge_plan entry)
                       (h @ [DoMergeAndWrite (sortkey_pos (rel_schema (rel task)))
                               (BlockMaxRows (rel_schema (rel task))) None]) of
                  (Some e, h2) \<Rightarrow>
                    (Err e, task1\<lparr>createdBObjs := []\<rparr>,
                     h2 @ [LogError e ''2-HandleMergeEntryInTxn''])
                | (None, h2) \<Rightarrow>
                    (Ok (), task1\<lparr>createdBObjs := map stats_ObjectId (CreatedObjectStats entry)\<rparr>,
                     h2 @ [PerfCounterUpdate]))))"
  unfolding Execute_def Let_def sortkey_no_panic HandleMergeEntryInTxn_calls
  by (simp split: prod.splits option.splits)

lemma no_engine_call_oks: "filter is_engine_call (oks cs) = []"
  by (induction cs) (auto simp: oks_def)

lemma Execute_trace:
  assumes "Execute E task h = (res, task', h')"
  shows "\<exists>r1 task1 cs.
          engine E h (sortkey_pos (rel_schema (rel task)))
            (BlockMaxRows (rel_schema (rel task))) task = (r1, task1)
        \<and> h' = h @ DoMergeAndWrite (sortkey_pos (rel_schema (rel task)))
                      (BlockMaxRows (rel_schema (rel task))) r1 # cs
        \<and> filter is_engine_call cs = []
        \<and> (\<forall>e. r1 = Some e \<longrightarrow> res = Err e \<and> cs = [LogError e ''1-DoMergeAndWrite''])
        \<and> (\<forall>entry. r1 = None \<and> commitEntry task1 = Some entry \<longrightarrow>
              (res = Ok ()
               \<and> cs = oks (merge_plan entry) @ [PerfCounterUpdate]
               \<and> createdBObjs task' = map stats_ObjectId (CreatedObjectStats entry))
            \<or> (\<exists>n e. n < length (merge_plan entry) \<and> res = Err e
                  \<and> cs = oks (take n (merge_plan entry))
                         @ [Cat (merge_plan entry ! n) (Some e),
                            LogError e ''2-HandleMergeEntryInTxn'']))"
proof -
  let ?pos = "sortkey_pos (rel_schema (rel task))"
  let ?rows = "BlockMaxRows (rel_schema (rel task))"
  obtain r1 task1 where eng: "engine E h ?pos ?rows task = (r1, task1)"
    by (cases "engine E h ?pos ?rows task") auto
  show ?thesis
  proof (cases r1)
    case (Some e)
    with assms eng have "res = Err e"
      "h' = h @ [DoMergeAndWrite ?pos ?rows (Some e), LogError e ''1-DoMergeAndWrite'']"
      unfolding Execute_unfold by simp_all
    with eng Some show ?thesis by auto
  next
    case None
    note r1 = None
    show ?thesis
    proof (cases "commitEntry task1")
      case None
      with assms eng r1 have "h' = h @ [DoMergeAndWrite ?pos ?rows None]"
        unfolding Execute_unfold by simp
      with eng r1 None show ?thesis by auto
    next
      case (Some entry)
      let ?h1 = "h @ [DoMergeAndWrite ?pos ?rows None]"
      obtain eo h2 where rc: "run_calls E (merge_plan entry) ?h1 = (eo, h2)"
        by (cases "run_calls E (merge_plan entry) ?h1") auto
      show ?thesis
      proof (cases eo)
        case None
        with run_calls_trace [OF rc] have h2: "h2 = ?h1 @ oks (merge_plan entry)" by simp
        from assms eng r1 Some rc None have
          "res = Ok ()" "h' = h2 @ [PerfCounterUpdate]"
          "createdBObjs task' = map stats_ObjectId (CreatedObjectStats entry)"
          unfolding Execute_unfold by auto
        with eng r1 Some h2 show ?thesis
          by (auto simp: no_engine_call_oks)
      next
        case (Some e)
        with run_calls_trace [OF rc] obtain n where
          n: "n < length (merge_plan entry)"
          and h2: "h2 = ?h1 @ oks (take n (merge_plan entry)) @ [Cat (merge_plan entry ! n) (Some e)]"
          by auto
        from assms eng r1 \<open>commitEntry task1 = Some entry\<close> rc Some have
          "res = Err e" "h' = h2 @ [LogError e ''2-HandleMergeEntryInTxn'']"
          unfolding Execute_unfold by auto
        with eng r1 \<open>commitEntry task1 = Some entry\<close> h2 n show ?thesis
          by (auto simp: no_engine_call_oks)
      qed
    qed
  qed
qed

lemma Execute_engine_fail:
  "Execute env_engine_fail task_two [] =
     (Err (ErrMsg ''disk full''), task_two,
      [DoMergeAndWrite 0 1000 (Some (ErrMsg ''disk full'')),
       LogError (ErrMsg ''disk full'') ''1-DoMergeAndWrite''])"
  by code_simp

lemma Execute_conflict:
  "Execute env_conflict task_two [] =
     (Err (ErrMsg ''w-w conflict''),
      task_two\<lparr>commitEntry := Some entry_two, createdBObjs := []\<rparr>,
      DoMergeAndWrite 0 1000 None # hist_conflict
        @ [LogError (ErrMsg ''w-w conflict'') ''2-HandleMergeEntryInTxn''])"
  by code_simp

lemma Execute_ok:
  "Execute env_ok task_two [] =
     (Ok (), task_two\<lparr>commitEntry := Some entry_two, createdBObjs := [20]\<rparr>,
      DoMergeAndWrite 0 1000 None # hist_apply @ [PerfCounterUpdate])"
  by code_simp

lemma Execute_sk:
  "Execute env_ok task_sk [] =
     (Ok (), task_sk\<lparr>commitEntry := Some entry_two, createdBObjs := [20]\<rparr>,
      DoMergeAndWrite 1 8192 None # hist_apply @ [PerfCounterUpdate])"
  by code_simp

lemma PrepareNewWriterFunc_two:
  "PrepareNewWriterFunc task_two =
     Ok \<lparr>w_version = 1, w_seqnums = [0, 1], w_sortkeyPos = 0, w_sortkeyIsPK = True\<rparr>"
  by code_simp

lemma PrepareNewWriterFunc_sk:
  "PrepareNewWriterFunc task_sk =
     Ok \<lparr>w_version = 3, w_seqnums = [0, 1], w_sortkeyPos = 1, w_sortkeyIsPK = False\<rparr>"
  by code_simp

section \<open>Claims about the constructor\<close>

text \<open>
  C1 (amended). Constructing a merge task from an empty list of source objects panics
  with "empty mergedObjs" before any catalog or storage call is made: the history is
  returned unchanged. No error value is returned to the caller.
\<close>

theorem NewMergeObjectsTask_empty_panics:
  "NewMergeObjectsTask E [] h = (Panic ''empty mergedObjs'', h)"
  by (simp add: NewMergeObjectsTask_def)

text \<open>
  C1 as stated fails: on the empty list the constructor does not return an error, it
  panics.
\<close>

theorem NewMergeObjectsTask_empty_counterexample:
  "\<not> returns_error (fst (NewMergeObjectsTask env_ok [] []))
   \<and> panics (fst (NewMergeObjectsTask env_ok [] []))"
  by (simp add: NewMergeObjectsTask_def returns_error_def panics_def)

text \<open>
  C10. A task the constructor returns has the database id and the table id of the table
  of the first source object and the relation handle looked up under these two ids; the
  catalog calls of the constructor are the two lookups and then one \<open>GetObject\<close> per
  source object, each on that relation, whatever table the other objects name. The commit
  entry \<open>PrepareCommitEntry\<close> builds carries these two ids and the statistics of all
  source objects, and is stored in the task.
\<close>

theorem constructor_uses_first_table:
  assumes "NewMergeObjectsTask E objs h = (Ok task, h')"
  shows "did task = db_ID (tbl_DB (GetTable (objs ! 0)))
     \<and> tid task = tbl_ID (GetTable (objs ! 0))
     \<and> rel task = \<lparr>rel_did = db_ID (tbl_DB (GetTable (objs ! 0))),
                    rel_tid = tbl_ID (GetTable (objs ! 0)),
                    rel_schema = relSchema E (db_ID (tbl_DB (GetTable (objs ! 0))))
                                   (tbl_ID (GetTable (objs ! 0)))\<rparr>
     \<and> h' = h @ [Cat (GetDatabaseByID (db_ID (tbl_DB (GetTable (objs ! 0))))) None,
                  Cat (GetRelationByID (db_ID (tbl_DB (GetTable (objs ! 0))))
                         (tbl_ID (GetTable (objs ! 0)))) None]
               @ map (\<lambda>m. Cat (GetObject (db_ID (tbl_DB (GetTable (objs ! 0))))
                                  (tbl_ID (GetTable (objs ! 0))) (ID m)) None) objs
     \<and> mergedObjsHandle task =
         map (\<lambda>m. \<lparr>oh_did = db_ID (tbl_DB (GetTable (objs ! 0))),
                    oh_tid = tbl_ID (GetTable (objs ! 0)), oh_id = ID m\<rparr>) objs
     \<and> DbID (fst (PrepareCommitEntry E task)) = db_ID (tbl_DB (GetTable (objs ! 0)))
     \<and> TableID (fst (PrepareCommitEntry E task)) = tbl_ID (GetTable (objs ! 0))
     \<and> MergedObjs (fst (PrepareCommitEntry E task)) = map GetObjectStats objs
     \<and> commitEntry (snd (PrepareCommitEntry E task)) = Some (fst (PrepareCommitEntry E task))"
proof -
  note wf = NewMergeObjectsTask_Ok [OF assms]
  have ms: "merged_stats os acc = acc @ map GetObjectStats os" for os acc
    by (induction os arbitrary: acc) auto
  show ?thesis
    using wf(5,6,7,8,9) wf(2)
    by (simp add: PrepareCommitEntry_def Let_def ms)
qed

theorem constructor_uses_first_table_witness:
  "NewMergeObjectsTask env_ok objs_two [] = (Ok task_two, hist_two)
   \<and> GetTable (objs_two ! 1) = \<lparr>tbl_ID = 4, tbl_DB = \<lparr>db_ID = 3\<rparr>\<rparr>
   \<and> did task_two = 1 \<and> tid task_two = 2
   \<and> hist_two = [Cat (GetDatabaseByID 1) None, Cat (GetRelationByID 1 2) None,
                  Cat (GetObject 1 2 10) None, Cat (GetObject 1 2 11) None]
   \<and> DbID (fst (PrepareCommitEntry env_ok task_two)) = 1
   \<and> TableID (fst (PrepareCommitEntry env_ok task_two)) = 2"
  using constructor_uses_first_table [OF NewMergeObjectsTask_two] NewMergeObjectsTask_two
  by (simp add: objs_two_def)

section \<open>Claims about PrepareData\<close>

text \<open>
  C3. For a task built by the constructor: when a block read fails during
  \<open>PrepareData\<close>, the call returns that error, and what it appended to the history is
  the successful reads, the failed read, and then one \<open>Close\<close> for each view those reads
  acquired, in order; nothing was closed before. On a successful return nothing was closed
  and no read failed, and invoking the returned release function appends exactly one
  \<open>Close\<close> for each acquired view.
\<close>

theorem PrepareData_releases_views:
  assumes "NewMergeObjectsTask E objs h0 = (Ok task, h1)"
    and "PrepareData E task h = (res, h')"
  shows "(read_failed (drop (length h) h') \<longrightarrow>
           (\<exists>e rs obj blk idxs.
              res = Err e \<and>
              h' = h @ rs @ [GetColumnDataByIds obj blk idxs (Inl e)] @ map ViewClose (acquired rs) \<and>
              closed rs = [] \<and> \<not> read_failed rs))
       \<and> (\<forall>batches dels views. res = Ok (batches, dels, views) \<longrightarrow>
             \<not> read_failed (drop (length h) h') \<and>
             closed (drop (length h) h') = [] \<and>
             (\<forall>h2. releaseF views h2 = h2 @ map ViewClose (acquired (drop (length h) h'))))"
  using PrepareData_cases [OF assms]
proof (elim disjE [where P = "ColDefs (rel_schema (rel task)) = [] \<and> _"]
         disjE [where P = "\<exists>ws e. _ ws e"] exE conjE)
  assume "res = Panic ''makeslice: cap out of range''" "h' = h"
  then show ?thesis by simp
next
  fix ws e
  let ?idxs = "req_idxs (rel_schema (rel task))"
  let ?ps = "flat_blocks objs"
  assume l: "length ws < length ?ps" and res: "res = Err e"
    and h': "h' = h @ ok_reads ?idxs ?ps ws @ [failed_read ?idxs (?ps ! length ws) e]
                    @ map ViewClose ws"
  have "h' = h @ ok_reads ?idxs ?ps ws
               @ [GetColumnDataByIds (fst (?ps ! length ws)) (of_nat (snd (?ps ! length ws))) ?idxs (Inl e)]
               @ map ViewClose (acquired (ok_reads ?idxs ?ps ws))"
    using h' l by (simp add: acquired_ok_reads failed_read_def)
  moreover have "closed (ok_reads ?idxs ?ps ws) = []" by (rule closed_ok_reads)
  moreover have "\<not> read_failed (ok_reads ?idxs ?ps ws)" by (rule read_failed_ok_reads)
  ultimately show ?thesis using res by blast
next
  fix ws
  let ?idxs = "req_idxs (rel_schema (rel task))"
  let ?ps = "flat_blocks objs"
  assume l: "length ws = length ?ps" and h': "h' = h @ ok_reads ?idxs ?ps ws"
    and bb: "(\<exists>m. build_batches (req_attrs (rel_schema (rel task))) (map Some ws) [] [] = Panic m
                \<and> res = Panic m)
           \<or> (\<exists>batches dels.
                build_batches (req_attrs (rel_schema (rel task))) (map Some ws) [] []
                  = Ok (batches, dels)
                \<and> res = Ok (batches, dels, map Some ws))"
  have new: "drop (length h) h' = ok_reads ?idxs ?ps ws" using h' by simp
  have "views = map Some ws" if "res = Ok (batches, dels, views)" for batches dels views
    using bb that by auto
  then show ?thesis
    using l by (auto simp: new read_failed_ok_reads closed_ok_reads acquired_ok_reads releaseF_Some)
qed

theorem PrepareData_releases_views_witness:
  "NewMergeObjectsTask env_read_fail objs_two [] = (Ok task_two, hist_two)
   \<and> PrepareData env_read_fail task_two [] =
       (Err (ErrMsg ''io''),
        [GetColumnDataByIds 10 0 [0, 1] (Inr view_kv),
         GetColumnDataByIds 10 1 [0, 1] (Inr view_kv),
         GetColumnDataByIds 11 0 [0, 1] (Inl (ErrMsg ''io'')),
         ViewClose view_kv, ViewClose view_kv])
   \<and> (\<exists>rs obj blk idxs.
         [GetColumnDataByIds 10 0 [0, 1] (Inr view_kv),
          GetColumnDataByIds 10 1 [0, 1] (Inr view_kv),
          GetColumnDataByIds 11 0 [0, 1] (Inl (ErrMsg ''io'')),
          ViewClose view_kv, ViewClose view_kv]
         = rs @ [GetColumnDataByIds obj blk idxs (Inl (ErrMsg ''io''))] @ map ViewClose (acquired rs)
         \<and> closed rs = [] \<and> \<not> read_failed rs)
   \<and> PrepareData env_ok task_two [] =
       (Ok ([batch_kv, batch_kv, batch_kv], [None, None, None],
            [Some view_kv, Some view_kv, Some view_kv]),
        [GetColumnDataByIds 10 0 [0, 1] (Inr view_kv),
         GetColumnDataByIds 10 1 [0, 1] (Inr view_kv),
         GetColumnDataByIds 11 0 [0, 1] (Inr view_kv)])
   \<and> releaseF [Some view_kv, Some view_kv, Some view_kv] []
        = [ViewClose view_kv, ViewClose view_kv, ViewClose view_kv]"
proof -
  have fail: "\<exists>rs obj blk idxs.
         [GetColumnDataByIds 10 0 [0, 1] (Inr view_kv),
          GetColumnDataByIds 10 1 [0, 1] (Inr view_kv),
          GetColumnDataByIds 11 0 [0, 1] (Inl (ErrMsg ''io'')),
          ViewClose view_kv, ViewClose view_kv]
         = rs @ [GetColumnDataByIds obj blk idxs (Inl (ErrMsg ''io''))] @ map ViewClose (acquired rs)
         \<and> closed rs = [] \<and> \<not> read_failed rs"
    using PrepareData_releases_views
      [OF NewMergeObjectsTask_two_read_fail PrepareData_two_read_fail, THEN conjunct1]
    by simp
  have ok: "releaseF [Some view_kv, Some view_kv, Some view_kv] []
        = [ViewClose view_kv, ViewClose view_kv, ViewClose view_kv]"
    using PrepareData_releases_views
      [OF NewMergeObjectsTask_two PrepareData_two_ok, THEN conjunct2, rule_format,
       of "[batch_kv, batch_kv, batch_kv]" "[None, None, None]"
          "[Some view_kv, Some view_kv, Some view_kv]", THEN conjunct2, THEN conjunct2,
       rule_format, of "[]"]
    by simp
  show ?thesis
    using fail ok NewMergeObjectsTask_two_read_fail PrepareData_two_read_fail PrepareData_two_ok
    by blast
qed

text \<open>
  C5. For a task built by the constructor from the objects \<open>objs\<close>, a successful
  \<open>PrepareData\<close> returns as many batches and as many delete masks as the objects have
  blocks, and it made exactly that many reads. For object \<open>i\<close> and its block \<open>j\<close>, the
  read at global offset \<open>prefixSum objs i + j\<close> asked object \<open>i\<close> for block offset
  \<open>uint16(j)\<close> and the indexes of the columns that are not the physical address. The batch
  at that offset carries the names of those columns and one vector for each of them; the
  view that read returned has exactly that many columns, under the keys \<open>0\<close> up to their
  number, and vector \<open>c\<close> of the batch is the view's column \<open>c\<close>; the row count of the
  batch is the length of column \<open>0\<close>; the delete mask at that offset is that view's.
\<close>

theorem PrepareData_batches:
  assumes "NewMergeObjectsTask E objs h0 = (Ok task, h1)"
    and "PrepareData E task h = (Ok (batches, dels, views), h')"
  shows "length batches = sum_list (map BlockCnt objs)
       \<and> length dels = sum_list (map BlockCnt objs)
       \<and> length h' = length h + sum_list (map BlockCnt objs)
       \<and> (\<forall>i < length objs. \<forall>j < BlockCnt (objs ! i). \<exists>view.
             h' ! (length h + (prefixSum objs i + j)) =
               GetColumnDataByIds (ID (objs ! i)) (of_nat j)
                 (map Idx (data_cols (rel_schema (rel task)))) (Inr view)
           \<and> Attrs (batches ! (prefixSum objs i + j)) =
               map Name (data_cols (rel_schema (rel task)))
           \<and> length (Vecs (batches ! (prefixSum objs i + j))) =
               length (data_cols (rel_schema (rel task)))
           \<and> view_len view = length (data_cols (rel_schema (rel task)))
           \<and> fst ` set (Columns view) = int ` {0 ..< length (data_cols (rel_schema (rel task)))}
           \<and> (\<forall>c < length (data_cols (rel_schema (rel task))). \<exists>col.
                 map_of (Columns view) (int c) = Some col
               \<and> Vecs (batches ! (prefixSum objs i + j)) ! c = Some col)
           \<and> (\<exists>col. map_of (Columns view) 0 = Some col
               \<and> RowCount (batches ! (prefixSum objs i + j)) = length col)
           \<and> dels ! (prefixSum objs i + j) = DeleteMask view)"
proof -
  let ?idxs = "req_idxs (rel_schema (rel task))"
  let ?attrs = "req_attrs (rel_schema (rel task))"
  let ?ps = "flat_blocks objs"
  let ?N = "sum_list (map BlockCnt objs)"
  from PrepareData_cases [OF assms] have
    "\<exists>ws. length ws = length ?ps \<and> h' = h @ ok_reads ?idxs ?ps ws \<and>
          build_batches ?attrs (map Some ws) [] [] = Ok (batches, dels)"
    by auto
  then obtain ws where
    l: "length ws = length ?ps" and h': "h' = h @ ok_reads ?idxs ?ps ws"
    and "build_batches ?attrs (map Some ws) [] [] = Ok (batches, dels)"
    by blast
  from build_batches_Ok [OF this(3)] have
    bs: "list_all2 (\<lambda>v b. view_batch ?attrs v = Ok b) ws batches"
    and ds: "dels = map DeleteMask ws"
    by auto
  have N: "length ws = ?N" using l by (simp add: length_flat_blocks)
  have lb: "length batches = ?N" using list_all2_lengthD [OF bs] N by simp
  have la: "length ?attrs = length (data_cols (rel_schema (rel task)))"
    by (simp add: req_attrs_def)
  have per: "\<exists>view.
             h' ! (length h + (prefixSum objs i + j)) =
               GetColumnDataByIds (ID (objs ! i)) (of_nat j) ?idxs (Inr view)
           \<and> Attrs (batches ! (prefixSum objs i + j)) = ?attrs
           \<and> length (Vecs (batches ! (prefixSum objs i + j))) = length ?attrs
           \<and> view_len view = length ?attrs
           \<and> fst ` set (Columns view) = int ` {0 ..< length ?attrs}
           \<and> (\<forall>c < length ?attrs. \<exists>col.
                 map_of (Columns view) (int c) = Some col
               \<and> Vecs (batches ! (prefixSum objs i + j)) ! c = Some col)
           \<and> (\<exists>col. map_of (Columns view) 0 = Some col
               \<and> RowCount (batches ! (prefixSum objs i + j)) = length col)
           \<and> dels ! (prefixSum objs i + j) = DeleteMask view"
    if i: "i < length objs" and j: "j < BlockCnt (objs ! i)" for i j
  proof -
    let ?k = "prefixSum objs i + j"
    have k: "?k < length ws" using prefixSum_bound [OF i j] N by simp
    have "h' ! (length h + ?k) = ok_reads ?idxs ?ps ws ! ?k"
      unfolding h' by simp
    also have "\<dots> = GetColumnDataByIds (fst (?ps ! ?k)) (of_nat (snd (?ps ! ?k))) ?idxs (Inr (ws ! ?k))"
      using k l by (intro ok_reads_nth) simp_all
    also have "\<dots> = GetColumnDataByIds (ID (objs ! i)) (of_nat j) ?idxs (Inr (ws ! ?k))"
      by (simp add: flat_blocks_nth [OF i j])
    finally have ev: "h' ! (length h + ?k) =
        GetColumnDataByIds (ID (objs ! i)) (of_nat j) ?idxs (Inr (ws ! ?k))" .
    have vb: "view_batch ?attrs (ws ! ?k) = Ok (batches ! ?k)"
      using list_all2_nthD [OF bs k] .
    note ok = view_batch_Ok [OF vb]
    have d: "dels ! ?k = DeleteMask (ws ! ?k)" using k by (simp add: ds)
    from ev ok d show ?thesis
      by (intro exI [of _ "ws ! ?k"] conjI)
  qed
  have lh: "length h' = length h + ?N"
    unfolding h' using l N by (simp add: length_ok_reads)
  have ld: "length dels = ?N" using N by (simp add: ds)
  from per lb ld lh show ?thesis
    unfolding la by (simp add: req_idxs_def req_attrs_def)
qed


theorem PrepareData_batches_witness:
  "NewMergeObjectsTask env_ok objs_two [] = (Ok task_two, hist_two)
   \<and> PrepareData env_ok task_two [] =
       (Ok ([batch_kv, batch_kv, batch_kv], [None, None, None],
            [Some view_kv, Some view_kv, Some view_kv]),
        [GetColumnDataByIds 10 0 [0, 1] (Inr view_kv),
         GetColumnDataByIds 10 1 [0, 1] (Inr view_kv),
         GetColumnDataByIds 11 0 [0, 1] (Inr view_kv)])
   \<and> length [batch_kv, batch_kv, batch_kv] = sum_list (map BlockCnt objs_two)
   \<and> prefixSum objs_two 1 + 0 = 2
   \<and> (\<exists>view.
         [GetColumnDataByIds 10 0 [0, 1] (Inr view_kv),
          GetColumnDataByIds 10 1 [0, 1] (Inr view_kv),
          GetColumnDataByIds 11 0 [0, 1] (Inr view_kv)] ! 2 =
           GetColumnDataByIds 11 0 [0, 1] (Inr view)
       \<and> Attrs ([batch_kv, batch_kv, batch_kv] ! 2) = [''k'', ''v'']
       \<and> length (Vecs ([batch_kv, batch_kv, batch_kv] ! 2)) = 2
       \<and> view_len view = 2
       \<and> fst ` set (Columns view) = int ` {0 ..< 2}
       \<and> (\<forall>c < 2. \<exists>col. map_of (Columns view) (int c) = Some col
             \<and> Vecs ([batch_kv, batch_kv, batch_kv] ! 2) ! c = Some col)
       \<and> (\<exists>col. map_of (Columns view) 0 = Some col
           \<and> RowCount ([batch_kv, batch_kv, batch_kv] ! 2) = length col)
       \<and> [None, None, None] ! 2 = DeleteMask view)"
proof -
  note t = PrepareData_batches [OF NewMergeObjectsTask_two PrepareData_two_ok]
  have i: "1 < length objs_two" and j: "0 < BlockCnt (objs_two ! 1)"
    by (simp_all add: objs_two_def)
  have p: "prefixSum objs_two 1 + 0 = 2"
    by (simp add: prefixSum_def objs_two_def)
  have dc: "data_cols (rel_schema (rel task_two)) =
      [\<lparr>Name = ''k'', Idx = 0, SeqNum = 0, IsPhyAddr = False\<rparr>,
       \<lparr>Name = ''v'', Idx = 1, SeqNum = 1, IsPhyAddr = False\<rparr>]"
    by (simp add: data_cols_def task_two_def schema_pk_def)
  have id1: "ID (objs_two ! 1) = 11" by (simp add: objs_two_def)
  from t have len: "length [batch_kv, batch_kv, batch_kv] = sum_list (map BlockCnt objs_two)"
    by (elim conjE)
  have "\<exists>view.
         [GetColumnDataByIds 10 0 [0, 1] (Inr view_kv),
          GetColumnDataByIds 10 1 [0, 1] (Inr view_kv),
          GetColumnDataByIds 11 0 [0, 1] (Inr view_kv)] ! 2 =
           GetColumnDataByIds 11 0 [0, 1] (Inr view)
       \<and> Attrs ([batch_kv, batch_kv, batch_kv] ! 2) = [''k'', ''v'']
       \<and> length (Vecs ([batch_kv, batch_kv, batch_kv] ! 2)) = 2
       \<and> view_len view = 2
       \<and> fst ` set (Columns view) = int ` {0 ..< 2}
       \<and> (\<forall>c < 2. \<exists>col. map_of (Columns view) (int c) = Some col
             \<and> Vecs ([batch_kv, batch_kv, batch_kv] ! 2) ! c = Some col)
       \<and> (\<exists>col. map_of (Columns view) 0 = Some col
           \<and> RowCount ([batch_kv, batch_kv, batch_kv] ! 2) = length col)
       \<and> [None, None, None] ! 2 = DeleteMask view"
    using t [THEN conjunct2, THEN conjunct2, THEN conjunct2, rule_format, OF i j]
    unfolding p dc id1 by (simp add: numeral_2_eq_2)
  with len p NewMergeObjectsTask_two PrepareData_two_ok show ?thesis by (intro conjI)
qed

text \<open>
  C9 (amended). For a task built by the constructor: when every block read of
  \<open>PrepareData\<close> succeeds and some acquired view has a number of columns other than the
  number of requested columns, \<open>PrepareData\<close> panics instead of returning an error: with
  the mismatch message, or with the index or nil-pointer panic an earlier view raised in
  the batch loop. When a block read fails, \<open>PrepareData\<close> returns an error and does not
  panic, whatever the views acquired before. When every acquired view has exactly the
  requested number of columns, the mismatch panic does not occur.
\<close>

theorem PrepareData_mismatch_panics:
  assumes "NewMergeObjectsTask E objs h0 = (Ok task, h1)"
    and "PrepareData E task h = (res, h')"
  shows "(\<not> read_failed (drop (length h) h') \<and>
          (\<exists>v \<in> set (acquired (drop (length h) h')).
             view_len v \<noteq> length (data_cols (rel_schema (rel task))))
          \<longrightarrow> res = Panic ''mismatch'' \<or> res = Panic ''index out of range''
              \<or> res = Panic ''nil pointer dereference'')
       \<and> (read_failed (drop (length h) h') \<longrightarrow> (\<exists>e. res = Err e))
       \<and> ((\<forall>v \<in> set (acquired (drop (length h) h')).
             view_len v = length (data_cols (rel_schema (rel task))))
          \<longrightarrow> res \<noteq> Panic ''mismatch'')"
  using PrepareData_cases [OF assms]
proof (elim disjE [where P = "ColDefs (rel_schema (rel task)) = [] \<and> _"]
         disjE [where P = "\<exists>ws e. _ ws e"] exE conjE)
  assume "res = Panic ''makeslice: cap out of range''" "h' = h"
  then show ?thesis by simp
next
  fix ws e
  let ?idxs = "req_idxs (rel_schema (rel task))"
  let ?ps = "flat_blocks objs"
  assume res: "res = Err e"
    and h': "h' = h @ ok_reads ?idxs ?ps ws @ [failed_read ?idxs (?ps ! length ws) e]
                    @ map ViewClose ws"
  have "read_failed (drop (length h) h')"
    unfolding h' by (simp add: read_failed_append failed_read_def)
  with res show ?thesis by simp
next
  fix ws
  let ?idxs = "req_idxs (rel_schema (rel task))"
  let ?attrs = "req_attrs (rel_schema (rel task))"
  let ?ps = "flat_blocks objs"
  assume l: "length ws = length ?ps" and h': "h' = h @ ok_reads ?idxs ?ps ws"
    and bb: "(\<exists>m. build_batches ?attrs (map Some ws) [] [] = Panic m \<and> res = Panic m)
           \<or> (\<exists>batches dels. build_batches ?attrs (map Some ws) [] [] = Ok (batches, dels)
                \<and> res = Ok (batches, dels, map Some ws))"
  have new: "drop (length h) h' = ok_reads ?idxs ?ps ws" unfolding h' by simp
  have acq: "acquired (drop (length h) h') = ws"
    unfolding new using l by (simp add: acquired_ok_reads)
  have nrf: "\<not> read_failed (drop (length h) h')"
    unfolding new by (rule read_failed_ok_reads)
  have la: "length ?attrs = length (data_cols (rel_schema (rel task)))"
    by (simp add: req_attrs_def)
  have one: "res = Panic ''mismatch'' \<or> res = Panic ''index out of range''
              \<or> res = Panic ''nil pointer dereference''"
    if "\<exists>v \<in> set ws. view_len v \<noteq> length (data_cols (rel_schema (rel task)))"
  proof -
    from that have "\<exists>v \<in> set ws. view_len v \<noteq> length ?attrs" by (simp add: la)
    from build_batches_mismatch [OF this, of "[]" "[]"] obtain m where
      m: "build_batches ?attrs (map Some ws) [] [] = Panic m" by blast
    with bb have "res = Panic m" by auto
    with build_batches_Panic [OF m] show ?thesis by blast
  qed
  have two: "res \<noteq> Panic ''mismatch''"
    if "\<forall>v \<in> set ws. view_len v = length (data_cols (rel_schema (rel task)))"
  proof -
    from that have "\<forall>v \<in> set ws. view_len v = length ?attrs" by (simp add: la)
    from build_batches_match [OF this, of "[]" "[]"] bb show ?thesis by auto
  qed
  from one two nrf show ?thesis unfolding acq by blast
qed

text \<open>
  C9 as stated fails: the views acquired from object 10 have one column where two were
  requested, the read of object 11 fails, and \<open>PrepareData\<close> returns that error without
  panicking.
\<close>

theorem PrepareData_mismatch_counterexample:
  "NewMergeObjectsTask env_short_fail objs_two [] = (Ok task_two, hist_two)
   \<and> acquired (snd (PrepareData env_short_fail task_two [])) = [view_k, view_k]
   \<and> view_len view_k \<noteq> length (data_cols (rel_schema (rel task_two)))
   \<and> \<not> panics (fst (PrepareData env_short_fail task_two []))
   \<and> fst (PrepareData env_short_fail task_two []) = Err (ErrMsg ''io'')"
  unfolding PrepareData_two_short_fail NewMergeObjectsTask_two_short_fail
  by (simp add: panics_def view_k_def view_len_def data_cols_def task_two_def schema_pk_def)

theorem PrepareData_mismatch_panics_witness:
  "NewMergeObjectsTask env_short objs_two [] = (Ok task_two, hist_two)
   \<and> view_k \<in> set (acquired (snd (PrepareData env_short task_two [])))
   \<and> view_len view_k \<noteq> length (data_cols (rel_schema (rel task_two)))
   \<and> fst (PrepareData env_short task_two []) = Panic ''mismatch''
   \<and> read_failed (snd (PrepareData env_short_fail task_two []))
   \<and> (\<exists>e. fst (PrepareData env_short_fail task_two []) = Err e)
   \<and> fst (PrepareData env_ok task_two []) \<noteq> Panic ''mismatch''"
proof -
  have dc: "length (data_cols (rel_schema (rel task_two))) = 2"
    by (simp add: data_cols_def task_two_def schema_pk_def)
  have vk: "view_len view_k = 1" and vkv: "view_len view_kv = 2"
    by (simp_all add: view_k_def view_kv_def view_len_def)
  have "fst (PrepareData env_short task_two []) = Panic ''mismatch''
      \<or> fst (PrepareData env_short task_two []) = Panic ''index out of range''
      \<or> fst (PrepareData env_short task_two []) = Panic ''nil pointer dereference''"
    using PrepareData_mismatch_panics
      [OF NewMergeObjectsTask_two_short PrepareData_two_short, THEN conjunct1]
    by (simp add: dc vk PrepareData_two_short)
  then have a: "fst (PrepareData env_short task_two []) = Panic ''mismatch''"
    by (simp add: PrepareData_two_short)
  have b: "fst (PrepareData env_ok task_two []) \<noteq> Panic ''mismatch''"
    using PrepareData_mismatch_panics
      [OF NewMergeObjectsTask_two PrepareData_two_ok, THEN conjunct2, THEN conjunct2]
    by (simp add: dc vkv PrepareData_two_ok)
  have rf: "read_failed (snd (PrepareData env_short_fail task_two []))"
    by (simp add: PrepareData_two_short_fail)
  have e: "\<exists>e. fst (PrepareData env_short_fail task_two []) = Err e"
    using PrepareData_mismatch_panics
      [OF NewMergeObjectsTask_two_short_fail PrepareData_two_short_fail,
       THEN conjunct2, THEN conjunct1]
    by (simp add: PrepareData_two_short_fail)
  have c: "view_k \<in> set (acquired (snd (PrepareData env_short task_two [])))"
    by (simp add: PrepareData_two_short)
  from a b c rf e NewMergeObjectsTask_two_short dc vk show ?thesis by simp
qed

section \<open>Claims about HandleMergeEntryInTxn\<close>

text \<open>
  C2 (amended). \<open>HandleMergeEntryInTxn\<close> marks a created object sorted whether or not
  the table has a sort key: its result and its calls do not depend on the schema of the
  relation. In every run, a statistics update that succeeds is directly followed by
  \<open>SetSorted\<close> on the same object. After a successful apply the calls made include
  \<open>SetSorted\<close> on the object of every created-object statistics entry.
\<close>

theorem HandleMergeEntryInTxn_sets_sorted:
  "HandleMergeEntryInTxn (E\<lparr>relSchema := f\<rparr>) entry h = HandleMergeEntryInTxn E entry h
   \<and> (\<forall>res h' k i st.
         HandleMergeEntryInTxn E entry h = (res, h')
         \<and> k < length (drop (length h) h')
         \<and> drop (length h) h' ! k = Cat (UpdateStats i st) None
         \<longrightarrow> Suc k < length (drop (length h) h')
           \<and> drop (length h) h' ! Suc k = Cat (SetSorted i) None)
   \<and> (\<forall>created h'. HandleMergeEntryInTxn E entry h = (Ok created, h') \<longrightarrow>
         (\<forall>s \<in> set (CreatedObjectStats entry).
            Cat (SetSorted (stats_ObjectId s)) None \<in> set (drop (length h) h')))"
proof -
  have ok: "Cat (SetSorted (stats_ObjectId s)) None \<in> set (drop (length h) h')"
    if ok: "HandleMergeEntryInTxn E entry h = (Ok created, h')"
      and s: "s \<in> set (CreatedObjectStats entry)" for created h' s
  proof -
    obtain eo h2 where rc: "run_calls E (merge_plan entry) h = (eo, h2)"
      by (cases "run_calls E (merge_plan entry) h") auto
    with ok have "eo = None" "h2 = h'"
      unfolding HandleMergeEntryInTxn_calls by (auto split: option.splits)
    with run_calls_trace [OF rc] have h': "h' = h @ oks (merge_plan entry)" by simp
    have "SetSorted (stats_ObjectId s) \<in> set (merge_plan entry)"
      using SetSorted_in_create_calls [OF s] by (simp add: merge_plan_def)
    then show ?thesis unfolding h' by (simp add: oks_def)
  qed
  have each: "Suc k < length (drop (length h) h')
           \<and> drop (length h) h' ! Suc k = Cat (SetSorted i) None"
    if run: "HandleMergeEntryInTxn E entry h = (res, h')"
      and k: "k < length (drop (length h) h')"
      and u: "drop (length h) h' ! k = Cat (UpdateStats i st) None" for res h' k i st
  proof -
    from HandleMergeEntryInTxn_trace [OF run] obtain n rest where
      n: "n \<le> length (merge_plan entry)"
      and ns: "n < length (merge_plan entry) \<longrightarrow> (\<forall>i. merge_plan entry ! n \<noteq> SetSorted i)"
      and rest: "\<forall>ev \<in> set rest. \<forall>c. ev \<noteq> Cat c None"
      and h': "h' = h @ oks (take n (merge_plan entry)) @ rest"
      by blast
    have new: "drop (length h) h' = oks (take n (merge_plan entry)) @ rest"
      unfolding h' by simp
    from oks_prefix_sorted [OF stats_then_sorted_merge_plan n _ rest, where k = k and i = i and st = st] ns k u
    show ?thesis unfolding new by blast
  qed
  from ok each show ?thesis
    unfolding HandleMergeEntryInTxn_calls run_calls_relSchema
    by (intro conjI allI impI ballI) (simp, blast+)
qed


text \<open>
  C2 as stated fails: the table of this catalog has no sort key, and the apply still
  calls \<open>SetSorted\<close> on the created object 20.
\<close>

theorem HandleMergeEntryInTxn_sorted_counterexample:
  "\<not> HasSortKey (relSchema env_nokey (DbID entry_two) (TableID entry_two))
   \<and> CreatedObjectStats entry_two = [\<lparr>stats_ObjectId = 20, stats_Rows = 2300\<rparr>]
   \<and> fst (HandleMergeEntryInTxn env_nokey entry_two []) = Ok [20]
   \<and> Cat (SetSorted 20) None \<in> set (snd (HandleMergeEntryInTxn env_nokey entry_two []))"
  unfolding HandleMergeEntryInTxn_nokey
  by (simp add: HasSortKey_def env_nokey_def schema_nokey_def entry_two_def hist_apply_def)

theorem HandleMergeEntryInTxn_sets_sorted_witness:
  "HandleMergeEntryInTxn env_nokey entry_two [] = (Ok [20], hist_apply)
   \<and> \<lparr>stats_ObjectId = 20, stats_Rows = 2300\<rparr> \<in> set (CreatedObjectStats entry_two)
   \<and> Cat (SetSorted 20) None \<in> set hist_apply
   \<and> HandleMergeEntryInTxn (env_nokey\<lparr>relSchema := \<lambda>d t. schema_pk\<rparr>) entry_two []
       = (Ok [20], hist_apply)
   \<and> HandleMergeEntryInTxn env_stats_fail entry_three []
       = (Err (ErrMsg ''stats''), hist_stats_fail)
   \<and> hist_stats_fail ! 5 = Cat (UpdateStats 20 \<lparr>stats_ObjectId = 20, stats_Rows = 1400\<rparr>) None
   \<and> Suc 5 < length hist_stats_fail
   \<and> hist_stats_fail ! Suc 5 = Cat (SetSorted 20) None"
proof -
  note t = HandleMergeEntryInTxn_sets_sorted
    [where E = env_nokey and f = "\<lambda>d t. schema_pk" and entry = entry_two and h = "[]"]
  note u = HandleMergeEntryInTxn_sets_sorted
    [where E = env_stats_fail and f = "\<lambda>d t. schema_pk" and entry = entry_three and h = "[]"]
  have s: "\<lparr>stats_ObjectId = 20, stats_Rows = 2300\<rparr> \<in> set (CreatedObjectStats entry_two)"
    by (simp add: entry_two_def)
  from t [THEN conjunct2, THEN conjunct2, rule_format, OF HandleMergeEntryInTxn_nokey s]
  have a: "Cat (SetSorted 20) None \<in> set hist_apply" by simp
  from t [THEN conjunct1] have
    b: "HandleMergeEntryInTxn (env_nokey\<lparr>relSchema := \<lambda>d t. schema_pk\<rparr>) entry_two []
       = (Ok [20], hist_apply)"
    by (simp add: HandleMergeEntryInTxn_nokey)
  have k: "5 < length (drop (length ([] :: event list)) hist_stats_fail)"
    by (simp add: hist_stats_fail_def)
  have e: "drop (length ([] :: event list)) hist_stats_fail ! 5
       = Cat (UpdateStats 20 \<lparr>stats_ObjectId = 20, stats_Rows = 1400\<rparr>) None"
    by (simp add: hist_stats_fail_def)
  from u [THEN conjunct2, THEN conjunct1, rule_format,
          OF conjI [OF HandleMergeEntryInTxn_stats_fail conjI [OF k e]]]
  have c: "Suc 5 < length hist_stats_fail" "hist_stats_fail ! Suc 5 = Cat (SetSorted 20) None"
    by simp_all
  from e have e': "hist_stats_fail ! 5
       = Cat (UpdateStats 20 \<lparr>stats_ObjectId = 20, stats_Rows = 1400\<rparr>) None"
    by simp
  from a b c e' s HandleMergeEntryInTxn_nokey HandleMergeEntryInTxn_stats_fail
  show ?thesis by (intro conjI)
qed

text \<open>
  C6. A successful \<open>HandleMergeEntryInTxn\<close> returns the ids embedded in the
  created-object statistics, and the calls it made are, in this order and all succeeding:
  the database and relation lookups; for every source-object statistics of the entry the
  object lookup and its soft delete; for every created-object statistics the creation of a
  non-appendable object with the id embedded in the statistics, the update of its
  statistics and \<open>SetSorted\<close>; then the construction of one log entry holding the dropped
  ids, the created ids and the booking, and one \<open>LogTxnEntry\<close> of it under the database
  id and table id of the commit entry.
\<close>

theorem HandleMergeEntryInTxn_success:
  assumes "HandleMergeEntryInTxn E entry h = (Ok created, h')"
  shows "created = map stats_ObjectId (CreatedObjectStats entry)
   \<and> h' = h @ map (\<lambda>c. Cat c None)
         ([GetDatabaseByID (DbID entry), GetRelationByID (DbID entry) (TableID entry)]
          @ concat (map (\<lambda>s. [GetObject (DbID entry) (TableID entry) (stats_ObjectId s),
                               SoftDeleteObject (DbID entry) (TableID entry) (stats_ObjectId s)])
                      (MergedObjs entry))
          @ concat (map (\<lambda>s. [CreateNonAppendableObject (DbID entry) (TableID entry) False
                                 (stats_ObjectId s),
                               UpdateStats (stats_ObjectId s) s,
                               SetSorted (stats_ObjectId s)])
                      (CreatedObjectStats entry))
          @ [NewMergeObjectsEntry
               \<lparr>moe_did = DbID entry, moe_tid = TableID entry,
                moe_dropped = map stats_ObjectId (MergedObjs entry),
                moe_created = map stats_ObjectId (CreatedObjectStats entry),
                moe_booking = Booking entry\<rparr>,
             LogTxnEntry (DbID entry) (TableID entry)
               \<lparr>moe_did = DbID entry, moe_tid = TableID entry,
                moe_dropped = map stats_ObjectId (MergedObjs entry),
                moe_created = map stats_ObjectId (CreatedObjectStats entry),
                moe_booking = Booking entry\<rparr> []])"
proof -
  obtain eo h2 where rc: "run_calls E (merge_plan entry) h = (eo, h2)"
    by (cases "run_calls E (merge_plan entry) h") auto
  with assms have "eo = None" "h2 = h'"
    and c: "created = map stats_ObjectId (CreatedObjectStats entry)"
    unfolding HandleMergeEntryInTxn_calls by (auto split: option.splits)
  with run_calls_trace [OF rc] have "h' = h @ oks (merge_plan entry)" by simp
  with c show ?thesis
    by (simp add: oks_def merge_plan_def drop_calls_def create_calls_def txn_entry_def)
qed

theorem HandleMergeEntryInTxn_success_witness:
  "HandleMergeEntryInTxn env_ok entry_two [] = (Ok [20], hist_apply)
   \<and> [20] = map stats_ObjectId (CreatedObjectStats entry_two)
   \<and> hist_apply =
       [Cat (GetDatabaseByID 1) None, Cat (GetRelationByID 1 2) None,
        Cat (GetObject 1 2 10) None, Cat (SoftDeleteObject 1 2 10) None,
        Cat (GetObject 1 2 11) None, Cat (SoftDeleteObject 1 2 11) None,
        Cat (CreateNonAppendableObject 1 2 False 20) None,
        Cat (UpdateStats 20 \<lparr>stats_ObjectId = 20, stats_Rows = 2300\<rparr>) None,
        Cat (SetSorted 20) None,
        Cat (NewMergeObjectsEntry moe_two) None,
        Cat (LogTxnEntry 1 2 moe_two []) None]"
  using HandleMergeEntryInTxn_success [OF HandleMergeEntryInTxn_ok] HandleMergeEntryInTxn_ok
  by (simp add: entry_two_def moe_two_def)

text \<open>
  C7. When a call of \<open>HandleMergeEntryInTxn\<close> fails (a lookup, a soft delete, a
  creation, a statistics update, the construction of the log entry or its append), the
  result is that call's error, which carries no created objects, and the calls made are a
  prefix of the calls of a successful apply that ends with the failing call: nothing is
  called after it, and nothing is undone.
\<close>

theorem HandleMergeEntryInTxn_aborts:
  assumes "HandleMergeEntryInTxn E entry h = (res, h')"
    and "\<exists>ev \<in> set (drop (length h) h'). call_failed ev"
  shows "\<exists>n e. n < length (merge_plan entry) \<and> res = Err e
           \<and> h' = h @ oks (take n (merge_plan entry)) @ [Cat (merge_plan entry ! n) (Some e)]"
proof -
  obtain eo h2 where rc: "run_calls E (merge_plan entry) h = (eo, h2)"
    by (cases "run_calls E (merge_plan entry) h") auto
  show ?thesis
  proof (cases eo)
    case None
    with assms(1) rc have "h2 = h'"
      unfolding HandleMergeEntryInTxn_calls by simp
    with run_calls_trace [OF rc] None have "h' = h @ oks (merge_plan entry)" by simp
    with assms(2) not_call_failed_oks show ?thesis by auto
  next
    case (Some e)
    with assms(1) rc have "res = Err e" "h2 = h'"
      unfolding HandleMergeEntryInTxn_calls by simp_all
    with run_calls_trace [OF rc] Some show ?thesis by auto
  qed
qed

theorem HandleMergeEntryInTxn_aborts_witness:
  "HandleMergeEntryInTxn env_conflict entry_two [] = (Err (ErrMsg ''w-w conflict''), hist_conflict)
   \<and> call_failed (Cat (SoftDeleteObject 1 2 11) (Some (ErrMsg ''w-w conflict'')))
   \<and> (\<exists>n e. n < length (merge_plan entry_two)
         \<and> Err (ErrMsg ''w-w conflict'') = (Err e :: objid list outcome)
         \<and> hist_conflict = [] @ oks (take n (merge_plan entry_two))
                              @ [Cat (merge_plan entry_two ! n) (Some e)])"
proof -
  have f: "\<exists>ev \<in> set (drop (length ([] :: event list)) hist_conflict). call_failed ev"
    by (simp add: hist_conflict_def)
  from HandleMergeEntryInTxn_aborts [OF HandleMergeEntryInTxn_conflict f]
    HandleMergeEntryInTxn_conflict
  show ?thesis by simp
qed

section \<open>Claims about Execute\<close>

text \<open>
  C8. \<open>Execute\<close> calls the engine exactly once, first. When the engine fails, the
  result is the engine's error and the only thing that follows is the log of that error
  with the phase "1-DoMergeAndWrite": no catalog call is made. When the engine succeeds and
  has left a commit entry, the catalog calls follow, once: either all calls of the apply
  succeed and the result is success with the created objects stored in the task, or the
  calls stop at the first that fails, the result is that call's error, and the error is
  logged with the phase "2-HandleMergeEntryInTxn".
\<close>

theorem Execute_phases:
  assumes "Execute E task h = (res, task', h')"
  shows "length (filter is_engine_call (drop (length h) h')) = 1
     \<and> (\<exists>pos r1 task1 cs.
          engine E h pos (BlockMaxRows (rel_schema (rel task))) task = (r1, task1)
        \<and> h' = h @ DoMergeAndWrite pos (BlockMaxRows (rel_schema (rel task))) r1 # cs
        \<and> (\<forall>e. r1 = Some e \<longrightarrow> res = Err e \<and> cs = [LogError e ''1-DoMergeAndWrite''])
        \<and> (\<forall>entry. r1 = None \<and> commitEntry task1 = Some entry \<longrightarrow>
              (res = Ok ()
               \<and> cs = oks (merge_plan entry) @ [PerfCounterUpdate]
               \<and> createdBObjs task' = map stats_ObjectId (CreatedObjectStats entry))
            \<or> (\<exists>n e. n < length (merge_plan entry) \<and> res = Err e
                  \<and> cs = oks (take n (merge_plan entry))
                         @ [Cat (merge_plan entry ! n) (Some e),
                            LogError e ''2-HandleMergeEntryInTxn''])))"
proof -
  from Execute_trace [OF assms] obtain r1 task1 cs where
    t: "engine E h (sortkey_pos (rel_schema (rel task)))
            (BlockMaxRows (rel_schema (rel task))) task = (r1, task1)"
       "h' = h @ DoMergeAndWrite (sortkey_pos (rel_schema (rel task)))
                      (BlockMaxRows (rel_schema (rel task))) r1 # cs"
       "filter is_engine_call cs = []"
       "\<forall>e. r1 = Some e \<longrightarrow> res = Err e \<and> cs = [LogError e ''1-DoMergeAndWrite'']"
       "\<forall>entry. r1 = None \<and> commitEntry task1 = Some entry \<longrightarrow>
              (res = Ok ()
               \<and> cs = oks (merge_plan entry) @ [PerfCounterUpdate]
               \<and> createdBObjs task' = map stats_ObjectId (CreatedObjectStats entry))
            \<or> (\<exists>n e. n < length (merge_plan entry) \<and> res = Err e
                  \<and> cs = oks (take n (merge_plan entry))
                         @ [Cat (merge_plan entry ! n) (Some e),
                            LogError e ''2-HandleMergeEntryInTxn''])"
    by blast
  from t(2,3) have "length (filter is_engine_call (drop (length h) h')) = 1" by simp
  with t show ?thesis by blast
qed

theorem Execute_phases_witness:
  "Execute env_engine_fail task_two [] =
     (Err (ErrMsg ''disk full''), task_two,
      [DoMergeAndWrite 0 1000 (Some (ErrMsg ''disk full'')),
       LogError (ErrMsg ''disk full'') ''1-DoMergeAndWrite''])
   \<and> length (filter is_engine_call
        [DoMergeAndWrite 0 1000 (Some (ErrMsg ''disk full'')),
         LogError (ErrMsg ''disk full'') ''1-DoMergeAndWrite'']) = 1
   \<and> Execute env_conflict task_two [] =
     (Err (ErrMsg ''w-w conflict''),
      task_two\<lparr>commitEntry := Some entry_two, createdBObjs := []\<rparr>,
      DoMergeAndWrite 0 1000 None # hist_conflict
        @ [LogError (ErrMsg ''w-w conflict'') ''2-HandleMergeEntryInTxn''])
   \<and> length (filter is_engine_call
        (DoMergeAndWrite 0 1000 None # hist_conflict
          @ [LogError (ErrMsg ''w-w conflict'') ''2-HandleMergeEntryInTxn''])) = 1
   \<and> Execute env_ok task_two [] =
     (Ok (), task_two\<lparr>commitEntry := Some entry_two, createdBObjs := [20]\<rparr>,
      DoMergeAndWrite 0 1000 None # hist_apply @ [PerfCounterUpdate])
   \<and> length (filter is_engine_call
        (DoMergeAndWrite 0 1000 None # hist_apply @ [PerfCounterUpdate])) = 1"
proof -
  from Execute_phases [OF Execute_engine_fail, THEN conjunct1]
  have a: "length (filter is_engine_call
        [DoMergeAndWrite 0 1000 (Some (ErrMsg ''disk full'')),
         LogError (ErrMsg ''disk full'') ''1-DoMergeAndWrite'']) = 1"
    by simp
  from Execute_phases [OF Execute_conflict, THEN conjunct1]
  have b: "length (filter is_engine_call
        (DoMergeAndWrite 0 1000 None # hist_conflict
          @ [LogError (ErrMsg ''w-w conflict'') ''2-HandleMergeEntryInTxn''])) = 1"
    by simp
  from Execute_phases [OF Execute_ok, THEN conjunct1]
  have c: "length (filter is_engine_call
        (DoMergeAndWrite 0 1000 None # hist_apply @ [PerfCounterUpdate])) = 1"
    by simp
  from a b c Execute_engine_fail Execute_conflict Execute_ok show ?thesis by blast
qed

text \<open>
  C4. When \<open>PrepareNewWriterFunc\<close> returns a factory, the sort-key position
  \<open>Execute\<close> passes to \<open>DoMergeAndWrite\<close> is the one the factory is built with: the
  position of the table's sort key, or \<open>-1\<close> when the table has none. The factory's
  primary-key flag is set exactly when the table has a sort key that is the primary key.
\<close>

theorem writer_sortkey_agrees:
  assumes "PrepareNewWriterFunc task = Ok w"
    and "Execute E task h = (res, task', h')"
  shows "(\<exists>r1 cs. h' = h @ DoMergeAndWrite (w_sortkeyPos w)
                               (BlockMaxRows (rel_schema (rel task))) r1 # cs)
     \<and> w_sortkeyPos w =
         (case SortKey (rel_schema (rel task)) of None \<Rightarrow> - 1 | Some k \<Rightarrow> sk_idx k)
     \<and> w_sortkeyIsPK w = (\<exists>k. SortKey (rel_schema (rel task)) = Some k \<and> sk_primary k)"
proof -
  note w = PrepareNewWriterFunc_Ok [OF assms(1)]
  from Execute_trace [OF assms(2)] have
    "\<exists>r1 cs. h' = h @ DoMergeAndWrite (sortkey_pos (rel_schema (rel task)))
                              (BlockMaxRows (rel_schema (rel task))) r1 # cs"
    by (elim exE conjE) (intro exI)
  with w show ?thesis
    by (auto simp: sortkey_pos_def HasPK_def split: option.splits)
qed

theorem writer_sortkey_agrees_witness:
  "PrepareNewWriterFunc task_two =
     Ok \<lparr>w_version = 1, w_seqnums = [0, 1], w_sortkeyPos = 0, w_sortkeyIsPK = True\<rparr>
   \<and> (\<exists>r1 cs. DoMergeAndWrite 0 1000 None # hist_apply @ [PerfCounterUpdate]
               = [] @ DoMergeAndWrite 0 (BlockMaxRows (rel_schema (rel task_two))) r1 # cs)
   \<and> SortKey (rel_schema (rel task_two)) = Some \<lparr>sk_idx = 0, sk_primary = True\<rparr>
   \<and> PrepareNewWriterFunc task_sk =
     Ok \<lparr>w_version = 3, w_seqnums = [0, 1], w_sortkeyPos = 1, w_sortkeyIsPK = False\<rparr>
   \<and> (\<exists>r1 cs. DoMergeAndWrite 1 8192 None # hist_apply @ [PerfCounterUpdate]
               = [] @ DoMergeAndWrite 1 (BlockMaxRows (rel_schema (rel task_sk))) r1 # cs)
   \<and> SortKey (rel_schema (rel task_sk)) = Some \<lparr>sk_idx = 1, sk_primary = False\<rparr>"
proof -
  have a: "\<exists>r1 cs. DoMergeAndWrite 0 1000 None # hist_apply @ [PerfCounterUpdate]
               = [] @ DoMergeAndWrite 0 (BlockMaxRows (rel_schema (rel task_two))) r1 # cs"
    using writer_sortkey_agrees [OF PrepareNewWriterFunc_two Execute_ok, THEN conjunct1]
    by simp
  have b: "\<exists>r1 cs. DoMergeAndWrite 1 8192 None # hist_apply @ [PerfCounterUpdate]
               = [] @ DoMergeAndWrite 1 (BlockMaxRows (rel_schema (rel task_sk))) r1 # cs"
    using writer_sortkey_agrees [OF PrepareNewWriterFunc_sk Execute_sk, THEN conjunct1]
    by simp
  have c: "SortKey (rel_schema (rel task_two)) = Some \<lparr>sk_idx = 0, sk_primary = True\<rparr>"
    "SortKey (rel_schema (rel task_sk)) = Some \<lparr>sk_idx = 1, sk_primary = False\<rparr>"
    by (simp_all add: task_two_def task_sk_def schema_pk_def schema_sk_def)
  from a b c PrepareNewWriterFunc_two PrepareNewWriterFunc_sk show ?thesis by blast
qed

end
